theory Spec2Isabelle
  imports Main "HOL-Library.Sublist" "HOL-Library.AList"
begin

section \<open>Values, errors and the Python operations the code relies on\<close>

text \<open>
  The configuration layer of sunbeam (\<^verbatim>\<open>sunbeamlib/config.py\<close>) works on the trees that
  the YAML loader returns: scalars, sequences and mappings, and, after validation,
  \<^verbatim>\<open>pathlib.Path\<close> objects. A Python exception is a value of type \<open>error\<close>, and a function
  that can raise returns \<open>error + 'a\<close> with \<open>Inl\<close> for the exception.

  \<^verbatim>\<open>ValueError\<close> carries its message, because the code builds messages and a claim is
  about their text. The specification calls the \<^verbatim>\<open>ValueError\<close> that \<^verbatim>\<open>verify\<close> raises
  \<open>PathNotFoundError\<close>.
\<close>

datatype error =
    ValueError string
  | TypeError
  | AttributeError
  | KeyError string
  | NotADirectoryError
  | FileNotFoundError
  | ZeroDivisionError

text \<open>
  A path is represented by its string form (\<^verbatim>\<open>str(p)\<close>); the constructor \<open>PathV\<close> keeps a
  \<^verbatim>\<open>Path\<close> object apart from the \<^verbatim>\<open>str\<close> with the same text.
\<close>

type_synonym path = string

text \<open>
  A mapping is an association list in insertion order, as Python's \<^verbatim>\<open>dict\<close> and
  ruamel's \<^verbatim>\<open>CommentedMap\<close> are; keys are strings. A YAML float behaves as \<open>IntV\<close> does in
  every operation modelled here and has no constructor of its own.
\<close>

datatype val =
    NoneV
  | BoolV bool
  | IntV int
  | StrV string
  | PathV path
  | Seq "val list"
  | Mapping "(string \<times> val) list"

text \<open>\<^verbatim>\<open>isinstance(v, collections.Mapping)\<close>\<close>

fun isinstance_Mapping :: "val \<Rightarrow> bool" where
  "isinstance_Mapping (Mapping m) = True"
| "isinstance_Mapping _ = False"

text \<open>The items of a value already known to be a mapping.\<close>

fun items_of :: "val \<Rightarrow> (string \<times> val) list" where
  "items_of (Mapping m) = m"
| "items_of _ = []"

text \<open>\<^verbatim>\<open>v.items()\<close>: only a mapping has the method.\<close>

fun py_items :: "val \<Rightarrow> error + (string \<times> val) list" where
  "py_items (Mapping m) = Inr m"
| "py_items _ = Inl AttributeError"

text \<open>
  \<^verbatim>\<open>k in target\<close> for a string \<open>k\<close>: key membership on a mapping, substring test on a
  string, element test on a sequence, \<^verbatim>\<open>TypeError\<close> on everything else.
\<close>

fun py_contains :: "string \<Rightarrow> val \<Rightarrow> error + bool" where
  "py_contains k (Mapping m) = Inr (k \<in> set (map fst m))"
| "py_contains k (StrV s) = Inr (sublist k s)"
| "py_contains k (Seq xs) = Inr (StrV k \<in> set xs)"
| "py_contains k _ = Inl TypeError"

text \<open>\<^verbatim>\<open>target[k]\<close> for a string \<open>k\<close>.\<close>

fun py_getitem :: "val \<Rightarrow> string \<Rightarrow> error + val" where
  "py_getitem (Mapping m) k =
     (case map_of m k of Some v \<Rightarrow> Inr v | None \<Rightarrow> Inl (KeyError k))"
| "py_getitem _ k = Inl TypeError"

text \<open>
  \<^verbatim>\<open>target[k] = v\<close> for a string \<open>k\<close>: a present key keeps its position, a new key goes
  to the end; nothing but a mapping accepts a string index.
\<close>

fun py_setitem :: "val \<Rightarrow> string \<Rightarrow> val \<Rightarrow> error + val" where
  "py_setitem (Mapping m) k v = Inr (Mapping (AList.update k v m))"
| "py_setitem _ k v = Inl TypeError"

text \<open>\<^verbatim>\<open>k in target.keys()\<close>\<close>

fun py_in_keys :: "string \<Rightarrow> val \<Rightarrow> error + bool" where
  "py_in_keys k (Mapping m) = Inr (k \<in> set (map fst m))"
| "py_in_keys k _ = Inl AttributeError"

text \<open>\<^verbatim>\<open>target.get(k, default)\<close>\<close>

fun py_get :: "val \<Rightarrow> string \<Rightarrow> val \<Rightarrow> error + val" where
  "py_get (Mapping m) k d = Inr (case map_of m k of Some v \<Rightarrow> v | None \<Rightarrow> d)"
| "py_get _ k d = Inl AttributeError"

text \<open>Truth value of a YAML value, as \<^verbatim>\<open>if nucl:\<close> tests it.\<close>

fun py_truthy :: "val \<Rightarrow> bool" where
  "py_truthy NoneV = False"
| "py_truthy (BoolV b) = b"
| "py_truthy (IntV i) = (i \<noteq> 0)"
| "py_truthy (StrV s) = (s \<noteq> [])"
| "py_truthy (PathV p) = True"
| "py_truthy (Seq xs) = (xs \<noteq> [])"
| "py_truthy (Mapping m) = (m \<noteq> [])"

lemma size_items_of:
  "size_list (size_prod (\<lambda>_. 0) size) (items_of v) < Suc (Suc (size v + n))"
  by (cases v) simp_all

section \<open>DeepMerger\<close>

text \<open>
  \<^verbatim>\<open>_update_dict(target, new)\<close>, the lenient merge. \<open>update_dict_items\<close> is the body of
  the \<^verbatim>\<open>for k, v in new.items()\<close> loop on the items still to visit; the state is the
  target, which the source mutates in place and returns. The recursive call
  \<^verbatim>\<open>_update_dict(target[k], v)\<close> is made only for a \<open>v\<close> that passed
  \<^verbatim>\<open>isinstance(v, collections.Mapping)\<close>, so it enters the loop on \<open>items_of v\<close>.
  An exception leaves the result \<open>Inl\<close>; the partly updated target is not kept. The
  target is a tree: no mapping object occurs twice in it (no YAML alias), so an update
  under one key leaves the values under the other keys as they are.
\<close>

function update_dict_items :: "val \<Rightarrow> (string \<times> val) list \<Rightarrow> error + val" where
  "update_dict_items target [] = Inr target"
| "update_dict_items target ((k, v) # new) =
     (if isinstance_Mapping v then
        (case py_contains k target of
           Inl e \<Rightarrow> Inl e
         | Inr present \<Rightarrow>
             (case (if present then
                      (case py_getitem target k of
                         Inl e \<Rightarrow> Inl e
                       | Inr tk \<Rightarrow> update_dict_items tk (items_of v))
                    else update_dict_items (Mapping []) (items_of v)) of
                Inl e \<Rightarrow> Inl e
              | Inr r \<Rightarrow>
                  (case py_setitem target k r of
                     Inl e \<Rightarrow> Inl e
                   | Inr target' \<Rightarrow> update_dict_items target' new)))
      else
        (case py_setitem target k v of
           Inl e \<Rightarrow> Inl e
         | Inr target' \<Rightarrow> update_dict_items target' new))"
  by pat_completeness auto
termination
  by (relation "measure (\<lambda>(t, n). size_list (size_prod (\<lambda>_. 0) size) n)")
     (auto simp: size_items_of)

definition update_dict :: "val \<Rightarrow> val \<Rightarrow> error + val" where
  "update_dict target new =
     (case py_items new of Inl e \<Rightarrow> Inl e | Inr kvs \<Rightarrow> update_dict_items target kvs)"

text \<open>
  \<^verbatim>\<open>_update_dict_strict(target, new)\<close>. The third argument is what has been written to
  \<^verbatim>\<open>sys.stderr\<close> so far, one element per \<^verbatim>\<open>write\<close>; it is returned with the target.
\<close>

definition skip_message :: "string \<Rightarrow> string" where
  "skip_message k = ''Key '' @ [CHR 0x27] @ k @ [CHR 0x27] @ '' not found in target, skipping'' @ [CHR 0x0A]"

function update_dict_strict_items ::
  "val \<Rightarrow> (string \<times> val) list \<Rightarrow> string list \<Rightarrow> error + (val \<times> string list)" where
  "update_dict_strict_items target [] err = Inr (target, err)"
| "update_dict_strict_items target ((k, v) # new) err =
     (case (if isinstance_Mapping v then py_in_keys k target else Inr False) of
        Inl e \<Rightarrow> Inl e
      | Inr True \<Rightarrow>
          (case py_get target k (Mapping []) of
             Inl e \<Rightarrow> Inl e
           | Inr tk \<Rightarrow>
               (case update_dict_strict_items tk (items_of v) err of
                  Inl e \<Rightarrow> Inl e
                | Inr (r, err') \<Rightarrow>
                    (case py_setitem target k r of
                       Inl e \<Rightarrow> Inl e
                     | Inr target' \<Rightarrow> update_dict_strict_items target' new err')))
      | Inr False \<Rightarrow>
          (case py_in_keys k target of
             Inl e \<Rightarrow> Inl e
           | Inr True \<Rightarrow>
               (case py_setitem target k v of
                  Inl e \<Rightarrow> Inl e
                | Inr target' \<Rightarrow> update_dict_strict_items target' new err)
           | Inr False \<Rightarrow> update_dict_strict_items target new (err @ [skip_message k])))"
  by pat_completeness auto
termination
  by (relation "measure (\<lambda>(t, n, e). size_list (size_prod (\<lambda>_. 0) size) n)")
     (auto simp: size_items_of)

definition update_dict_strict :: "val \<Rightarrow> val \<Rightarrow> string list \<Rightarrow> error + (val \<times> string list)" where
  "update_dict_strict target new err =
     (case py_items new of
        Inl e \<Rightarrow> Inl e
      | Inr kvs \<Rightarrow> update_dict_strict_items target kvs err)"

text \<open>
  Two notions the statements about nested mappings use. \<open>descend v ks\<close> follows the keys
  \<open>ks\<close> down through nested mappings (\<^verbatim>\<open>v[k1][k2]...\<close>, \<open>None\<close> where a key is missing or
  the value is no mapping). \<open>well_formed v\<close> says that no mapping inside \<open>v\<close> lists a key
  twice, which every Python mapping satisfies.
\<close>

fun descend :: "val \<Rightarrow> string list \<Rightarrow> val option" where
  "descend v [] = Some v"
| "descend (Mapping m) (k # ks) = (case map_of m k of Some v \<Rightarrow> descend v ks | None \<Rightarrow> None)"
| "descend _ (k # ks) = None"

fun well_formed :: "val \<Rightarrow> bool" where
  "well_formed (Mapping m) = (distinct (map fst m) \<and> list_all (\<lambda>kv. well_formed (snd kv)) m)"
| "well_formed _ = True"


section \<open>The environment: pathlib and os\<close>

text \<open>
  The code reaches the file system through \<^verbatim>\<open>pathlib\<close> and \<^verbatim>\<open>os\<close>. Their operations are
  the fields of an environment, so every theorem holds for each file system and each
  behaviour of the library: \<open>Path env s\<close> is \<^verbatim>\<open>Path(s)\<close> (in its string form),
  \<open>joinpath env p q\<close> is \<^verbatim>\<open>p / q\<close>, \<open>getenv env n\<close> is the environment variable \<open>n\<close> if set,
  \<open>listdir\<close> is \<^verbatim>\<open>os.listdir\<close> and \<open>read_text env p\<close> is what \<^verbatim>\<open>open(p).read()\<close> returns.
\<close>

record os_env =
  Path :: "string \<Rightarrow> path"
  expanduser :: "path \<Rightarrow> path"
  is_absolute :: "path \<Rightarrow> bool"
  joinpath :: "path \<Rightarrow> string \<Rightarrow> path"
  exists :: "path \<Rightarrow> bool"
  resolve :: "path \<Rightarrow> path"
  getcwd :: string
  getenv :: "string \<Rightarrow> string option"
  listdir :: "path \<Rightarrow> error + string list"
  read_text :: "path \<Rightarrow> error + string"

text \<open>\<^verbatim>\<open>Path(v)\<close> for a configuration value: a string or a path, \<^verbatim>\<open>TypeError\<close> otherwise.\<close>

fun to_path :: "os_env \<Rightarrow> val \<Rightarrow> error + path" where
  "to_path env (StrV s) = Inr (Path env s)"
| "to_path env (PathV p) = Inr p"
| "to_path env _ = Inl TypeError"

text \<open>\<^verbatim>\<open>root / v\<close> for a configuration value \<open>v\<close>.\<close>

fun py_truediv :: "os_env \<Rightarrow> path \<Rightarrow> val \<Rightarrow> error + path" where
  "py_truediv env root (StrV s) = Inr (joinpath env root s)"
| "py_truediv env root (PathV p) = Inr (joinpath env root p)"
| "py_truediv env root _ = Inl TypeError"

text \<open>\<^verbatim>\<open>k.endswith(suffix)\<close>\<close>

definition endswith :: "string \<Rightarrow> string \<Rightarrow> bool" where
  "endswith k sfx \<longleftrightarrow> length sfx \<le> length k \<and> drop (length k - length sfx) k = sfx"

section \<open>PathResolver\<close>

definition makepath :: "os_env \<Rightarrow> val \<Rightarrow> error + path" where
  "makepath env v = (case to_path env v of Inl e \<Rightarrow> Inl e | Inr p \<Rightarrow> Inr (expanduser env p))"

definition verify_message :: "path \<Rightarrow> string" where
  "verify_message p = ''Path '' @ p @ '' does not exist''"

definition verify :: "os_env \<Rightarrow> val \<Rightarrow> error + path" where
  "verify env v =
     (case to_path env v of
        Inl e \<Rightarrow> Inl e
      | Inr p \<Rightarrow> if exists env p then Inr (resolve env p) else Inl (ValueError (verify_message p)))"

section \<open>SectionValidator\<close>

text \<open>The text of \<^verbatim>\<open>"For key '%s': path '%s' does not exist" % (k, v)\<close>.\<close>

definition key_message :: "string \<Rightarrow> path \<Rightarrow> string" where
  "key_message k p =
     ''For key '' @ [CHR 0x27] @ k @ [CHR 0x27] @ '': path '' @ [CHR 0x27] @ p @ [CHR 0x27] @
     '' does not exist''"

text \<open>
  The body of the loop of \<^verbatim>\<open>validate_paths\<close> for one item: the value that is stored under
  \<open>k\<close>. The \<^verbatim>\<open>except ValueError\<close> clause replaces the message of \<^verbatim>\<open>verify\<close>; the \<open>v\<close> it
  prints is the path before verification.
\<close>

definition validate_value :: "os_env \<Rightarrow> path \<Rightarrow> string \<Rightarrow> val \<Rightarrow> error + val" where
  "validate_value env root k v =
     (if endswith k ''_fp'' then
        (case makepath env v of
           Inl e \<Rightarrow> Inl e
         | Inr p \<Rightarrow>
             (let p' = (if \<not> is_absolute env p then joinpath env root p else p) in
              if k \<noteq> ''output_fp'' then
                (case verify env (PathV p') of
                   Inl (ValueError m) \<Rightarrow> Inl (ValueError (key_message k p'))
                 | Inl e \<Rightarrow> Inl e
                 | Inr r \<Rightarrow> Inr (PathV r))
              else Inr (PathV p')))
      else Inr v)"

text \<open>
  The two dictionaries \<^verbatim>\<open>validate_paths\<close> holds: its argument and the dictionary it
  builds. The loop runs over the items of the argument and assigns to \<^verbatim>\<open>new_cfg\<close> only.
\<close>

record validate_paths_locals =
  vp_cfg :: val
  vp_new_cfg :: "(string \<times> val) list"

fun validate_paths_loop ::
  "os_env \<Rightarrow> path \<Rightarrow> (string \<times> val) list \<Rightarrow> validate_paths_locals \<Rightarrow> error + validate_paths_locals" where
  "validate_paths_loop env root [] st = Inr st"
| "validate_paths_loop env root ((k, v) # rest) st =
     (case validate_value env root k v of
        Inl e \<Rightarrow> Inl e
      | Inr v' \<Rightarrow>
          validate_paths_loop env root rest (st\<lparr>vp_new_cfg := AList.update k v' (vp_new_cfg st)\<rparr>))"

definition validate_paths_run :: "os_env \<Rightarrow> val \<Rightarrow> path \<Rightarrow> error + validate_paths_locals" where
  "validate_paths_run env cfg root =
     (case py_items cfg of
        Inl e \<Rightarrow> Inl e
      | Inr kvs \<Rightarrow> validate_paths_loop env root kvs \<lparr>vp_cfg = cfg, vp_new_cfg = []\<rparr>)"

definition validate_paths :: "os_env \<Rightarrow> val \<Rightarrow> path \<Rightarrow> error + val" where
  "validate_paths env cfg root =
     (case validate_paths_run env cfg root of
        Inl e \<Rightarrow> Inl e
      | Inr st \<Rightarrow> Inr (Mapping (vp_new_cfg st)))"

section \<open>ConfigValidator\<close>

text \<open>The dictionary comprehension of \<^verbatim>\<open>check_config\<close>, on the sections still to visit.\<close>

fun check_config_sections ::
  "os_env \<Rightarrow> path \<Rightarrow> (string \<times> val) list \<Rightarrow> (string \<times> val) list \<Rightarrow> error + (string \<times> val) list" where
  "check_config_sections env root [] new_cfg = Inr new_cfg"
| "check_config_sections env root ((section, values) # rest) new_cfg =
     (case validate_paths env values root of
        Inl e \<Rightarrow> Inl e
      | Inr sec \<Rightarrow> check_config_sections env root rest (AList.update section sec new_cfg))"

definition check_config :: "os_env \<Rightarrow> val \<Rightarrow> error + val" where
  "check_config env cfg =
     (case py_getitem cfg ''all'' of
        Inl e \<Rightarrow> Inl e
      | Inr all_section \<Rightarrow>
          (case py_contains ''root'' all_section of
             Inl e \<Rightarrow> Inl e
           | Inr has_root \<Rightarrow>
               (case (if has_root then
                        (case py_getitem all_section ''root'' of
                           Inl e \<Rightarrow> Inl e
                         | Inr rv \<Rightarrow> verify env rv)
                      else Inr (Path env (getcwd env))) of
                  Inl e \<Rightarrow> Inl e
                | Inr root \<Rightarrow>
                    (case py_items cfg of
                       Inl e \<Rightarrow> Inl e
                     | Inr sections \<Rightarrow>
                         (case check_config_sections env root sections [] of
                            Inl e \<Rightarrow> Inl e
                          | Inr new_cfg \<Rightarrow>
                              (case py_getitem (Mapping new_cfg) ''all'' of
                                 Inl e \<Rightarrow> Inl e
                               | Inr new_all \<Rightarrow>
                                   (case py_setitem new_all ''root'' (PathV root) of
                                      Inl e \<Rightarrow> Inl e
                                    | Inr new_all' \<Rightarrow>
                                        Inr (Mapping (AList.update ''all'' new_all' new_cfg)))))))))"

section \<open>VersionChecker\<close>

text \<open>
  \<^verbatim>\<open>semantic_version.Version(s)\<close>, the strict parser of the library the code imports:
  \<^verbatim>\<open>major.minor.patch\<close> in decimal digits without leading zeros, then an optional
  \<^verbatim>\<open>-prerelease\<close> and an optional \<^verbatim>\<open>+build\<close>, each a dot-separated list of non-empty
  identifiers over \<^verbatim>\<open>[0-9a-zA-Z-]\<close>. The pattern ends in \<^verbatim>\<open>$\<close>, which also matches before
  one final newline. Every rejection is a \<^verbatim>\<open>ValueError\<close>; the library's message texts are
  shortened here.
\<close>

record version =
  major :: nat
  minor :: nat
  patch :: nat
  prerelease :: "string list"
  build :: "string list"

definition is_digit :: "char \<Rightarrow> bool" where
  "is_digit c \<longleftrightarrow> c \<in> set ''0123456789''"

definition is_ident_char :: "char \<Rightarrow> bool" where
  "is_ident_char c \<longleftrightarrow>
     c \<in> set ''0123456789abcdefghijklmnopqrstuvwxyzABCDEFGHIJKLMNOPQRSTUVWXYZ.-''"

fun index_of :: "'a \<Rightarrow> 'a list \<Rightarrow> nat" where
  "index_of c [] = 0"
| "index_of c (x # xs) = (if x = c then 0 else Suc (index_of c xs))"

text \<open>\<^verbatim>\<open>int(s)\<close> for a string of decimal digits.\<close>

definition int_of_digits :: "string \<Rightarrow> nat" where
  "int_of_digits s = foldl (\<lambda>n c. 10 * n + index_of c ''0123456789'') 0 s"

text \<open>\<^verbatim>\<open>s.split('.')\<close>\<close>

fun split_dots :: "string \<Rightarrow> string list" where
  "split_dots [] = [[]]"
| "split_dots (c # cs) =
     (if c = CHR ''.'' then [] # split_dots cs
      else (case split_dots cs of w # ws \<Rightarrow> (c # w) # ws | [] \<Rightarrow> [[c]]))"

definition has_leading_zero :: "string \<Rightarrow> bool" where
  "has_leading_zero s \<longleftrightarrow> s \<noteq> [] \<and> hd s = CHR ''0'' \<and> list_all is_digit s \<and> s \<noteq> ''0''"

definition parse_version :: "string \<Rightarrow> error + version" where
  "parse_version s0 =
     (let s = (if s0 \<noteq> [] \<and> last s0 = CHR 0x0A then butlast s0 else s0);
          major_s = takeWhile is_digit s;
          r1 = dropWhile is_digit s;
          minor_s = takeWhile is_digit (drop 1 r1);
          r2 = dropWhile is_digit (drop 1 r1);
          patch_s = takeWhile is_digit (drop 1 r2);
          r3 = dropWhile is_digit (drop 1 r2);
          pre = (if take 1 r3 = ''-'' then Some (takeWhile is_ident_char (drop 1 r3)) else None);
          r4 = (if take 1 r3 = ''-'' then dropWhile is_ident_char (drop 1 r3) else r3);
          bld = (if take 1 r4 = ''+'' then Some (drop 1 r4) else None);
          matches =
            (major_s \<noteq> [] \<and> take 1 r1 = ''.'' \<and> minor_s \<noteq> [] \<and> take 1 r2 = ''.'' \<and>
             patch_s \<noteq> [] \<and> pre \<noteq> Some [] \<and>
             (case bld of None \<Rightarrow> r4 = [] | Some b \<Rightarrow> b \<noteq> [] \<and> list_all is_ident_char b));
          pre_ids = (case pre of None \<Rightarrow> [] | Some p \<Rightarrow> split_dots p);
          bld_ids = (case bld of None \<Rightarrow> [] | Some b \<Rightarrow> split_dots b)
      in if \<not> matches then Inl (ValueError ''Invalid version string'')
         else if has_leading_zero major_s \<or> has_leading_zero minor_s \<or> has_leading_zero patch_s
           then Inl (ValueError ''Invalid leading zero'')
         else if [] \<in> set pre_ids \<or> list_ex has_leading_zero pre_ids \<or> [] \<in> set bld_ids
           then Inl (ValueError ''Invalid identifier'')
         else Inr \<lparr>major = int_of_digits major_s, minor = int_of_digits minor_s,
                   patch = int_of_digits patch_s, prerelease = pre_ids, build = bld_ids\<rparr>)"

text \<open>
  \<^verbatim>\<open>Version(v)\<close> for a configuration value: the library rejects \<^verbatim>\<open>None\<close> and every other
  false value with \<^verbatim>\<open>ValueError\<close>, and matching its pattern against anything else that is
  no string raises \<^verbatim>\<open>TypeError\<close>.
\<close>

definition Version :: "val \<Rightarrow> error + version" where
  "Version v =
     (case v of
        StrV s \<Rightarrow> if s = [] then Inl (ValueError ''Invalid empty version string'')
                  else parse_version s
      | _ \<Rightarrow> if py_truthy v then Inl TypeError
             else Inl (ValueError ''Invalid empty version string''))"

text \<open>
  \<^verbatim>\<open>check_compatibility(cfg)\<close>. The first argument is \<^verbatim>\<open>sunbeamlib.__version__\<close>, a string
  set in the package's \<^verbatim>\<open>__init__.py\<close>.
\<close>

definition check_compatibility :: "string \<Rightarrow> val \<Rightarrow> error + (nat \<times> nat)" where
  "check_compatibility pkg_version_str cfg =
     (case py_getitem cfg ''all'' of
        Inl e \<Rightarrow> Inl e
      | Inr all_section \<Rightarrow>
          (case py_get all_section ''version'' (StrV ''0.0.0'') of
             Inl e \<Rightarrow> Inl e
           | Inr v \<Rightarrow>
               (case Version v of
                  Inl e \<Rightarrow> Inl e
                | Inr cfg_version \<Rightarrow>
                    (case Version (StrV pkg_version_str) of
                       Inl e \<Rightarrow> Inl e
                     | Inr pkg_version \<Rightarrow> Inr (major pkg_version, major cfg_version)))))"

section \<open>DatabaseIndexExpander\<close>

text \<open>
  The dictionary comprehension \<^verbatim>\<open>{db: str(root/path) for db, path in group.items()}\<close>, on
  the items still to visit.
\<close>

fun expand_databases ::
  "os_env \<Rightarrow> path \<Rightarrow> (string \<times> val) list \<Rightarrow> (string \<times> val) list \<Rightarrow> error + (string \<times> val) list" where
  "expand_databases env root [] acc = Inr acc"
| "expand_databases env root ((db, p) # rest) acc =
     (case py_truediv env root p of
        Inl e \<Rightarrow> Inl e
      | Inr q \<Rightarrow> expand_databases env root rest (AList.update db (StrV q) acc))"

text \<open>
  The two dictionaries \<^verbatim>\<open>process_databases\<close> holds: its argument and \<^verbatim>\<open>dbs\<close>. One group is
  expanded and stored under its key of \<^verbatim>\<open>dbs\<close> when its value is true.
\<close>

record process_databases_locals =
  pd_db_dict :: val
  pd_dbs :: "(string \<times> val) list"

definition expand_group ::
  "os_env \<Rightarrow> path \<Rightarrow> val \<Rightarrow> string \<Rightarrow> process_databases_locals \<Rightarrow> error + process_databases_locals" where
  "expand_group env root grp key st =
     (if py_truthy grp then
        (case py_items grp of
           Inl e \<Rightarrow> Inl e
         | Inr kvs \<Rightarrow>
             (case expand_databases env root kvs [] of
                Inl e \<Rightarrow> Inl e
              | Inr d \<Rightarrow> Inr (st\<lparr>pd_dbs := AList.update key (Mapping d) (pd_dbs st)\<rparr>)))
      else Inr st)"

definition process_databases_run :: "os_env \<Rightarrow> val \<Rightarrow> error + process_databases_locals" where
  "process_databases_run env db_dict =
     (case py_getitem db_dict ''root_fp'' of
        Inl e \<Rightarrow> Inl e
      | Inr rv \<Rightarrow>
          (case makepath env rv of
             Inl e \<Rightarrow> Inl e
           | Inr p \<Rightarrow>
               (case verify env (PathV p) of
                  Inl e \<Rightarrow> Inl e
                | Inr root \<Rightarrow>
                    (case py_get db_dict ''nucleotide'' NoneV of
                       Inl e \<Rightarrow> Inl e
                     | Inr nucl \<Rightarrow>
                         (case py_get db_dict ''protein'' NoneV of
                            Inl e \<Rightarrow> Inl e
                          | Inr prot \<Rightarrow>
                              (case expand_group env root nucl ''nucl''
                                      \<lparr>pd_db_dict = db_dict,
                                       pd_dbs = [(''nucl'', Mapping []), (''prot'', Mapping [])]\<rparr> of
                                 Inl e \<Rightarrow> Inl e
                               | Inr st \<Rightarrow> expand_group env root prot ''prot'' st))))))"

definition process_databases :: "os_env \<Rightarrow> val \<Rightarrow> error + val" where
  "process_databases env db_dict =
     (case process_databases_run env db_dict of
        Inl e \<Rightarrow> Inl e
      | Inr st \<Rightarrow> Inr (Mapping (pd_dbs st)))"

section \<open>ExtensionAggregator\<close>

text \<open>
  The loop of \<^verbatim>\<open>extension_config\<close> over the entries still to visit; \<open>ext\<close> is
  \<^verbatim>\<open>sunbeam_dir/"extensions"\<close> and \<open>config\<close> the text accumulated so far. Only
  \<^verbatim>\<open>NotADirectoryError\<close> is caught.
\<close>

fun extension_config_loop :: "os_env \<Rightarrow> path \<Rightarrow> string list \<Rightarrow> string \<Rightarrow> error + string" where
  "extension_config_loop env ext [] config = Inr config"
| "extension_config_loop env ext (sbx # rest) config =
     (case listdir env (joinpath env ext sbx) of
        Inl NotADirectoryError \<Rightarrow> extension_config_loop env ext rest config
      | Inl e \<Rightarrow> Inl e
      | Inr sbx_files \<Rightarrow>
          if ''config.yml'' \<in> set sbx_files then
            (case read_text env (joinpath env (joinpath env ext sbx) ''config.yml'') of
               Inl e \<Rightarrow> Inl e
             | Inr txt \<Rightarrow> extension_config_loop env ext rest (config @ ([CHR 0x0A] @ txt)))
          else extension_config_loop env ext rest config)"

definition extensions_dir :: "os_env \<Rightarrow> path" where
  "extensions_dir env =
     joinpath env
       (Path env (case getenv env ''SUNBEAM_DIR'' of Some d \<Rightarrow> d | None \<Rightarrow> getcwd env))
       ''extensions''"

definition extension_config :: "os_env \<Rightarrow> error + string" where
  "extension_config env =
     (case listdir env (extensions_dir env) of
        Inl e \<Rightarrow> Inl e
      | Inr sbxs \<Rightarrow> extension_config_loop env (extensions_dir env) sbxs [])"

section \<open>The read filter\<close>

text \<open>
  \<^verbatim>\<open>sunbeamlib/decontam.py\<close>. What the code reads of a \<^verbatim>\<open>pysam\<close> alignment record:
  \<open>tag_NM\<close> is the value of the tag \<^verbatim>\<open>NM\<close> when the record has it; \<^verbatim>\<open>cigartuples\<close> and \<^verbatim>\<open>alen\<close>
  are \<^verbatim>\<open>None\<close> for a record without alignment.
\<close>

record alignment =
  is_unmapped :: bool
  cigartuples :: "(nat \<times> nat) list option"
  query_alignment_length :: int
  alen :: "int option"
  tag_NM :: "int option"
  query_name :: string

text \<open>
  Python's floating-point operations are the fields of \<open>'f float_ops\<close>, for a type \<open>'f\<close> of
  floats: \<^verbatim>\<open>float(n)\<close>, \<^verbatim>\<open>x / n\<close> for an integer \<open>n\<close> other than zero, \<^verbatim>\<open>1 - x\<close> and \<^verbatim>\<open>x > y\<close>.
  Nothing is assumed about rounding.
\<close>

record 'f float_ops =
  float_of_int :: "int \<Rightarrow> 'f"
  float_div :: "'f \<Rightarrow> int \<Rightarrow> 'f"
  one_minus :: "'f \<Rightarrow> 'f"
  float_gt :: "'f \<Rightarrow> 'f \<Rightarrow> bool"

text \<open>The loop of \<^verbatim>\<open>_get_frac\<close> over the CIGAR pairs still to visit.\<close>

fun clip_loop :: "(nat \<times> nat) list \<Rightarrow> nat \<Rightarrow> nat" where
  "clip_loop [] clip = clip"
| "clip_loop (pair # cigar) clip =
     clip_loop cigar (if fst pair \<in> set [4, 5] then clip + snd pair else clip)"

definition get_frac :: "'f float_ops \<Rightarrow> alignment \<Rightarrow> error + 'f" where
  "get_frac fl read =
     (case cigartuples read of
        None \<Rightarrow> Inl TypeError
      | Some cigar \<Rightarrow>
          (let clip = clip_loop cigar 0 in
           if query_alignment_length read + int clip = 0 then Inl ZeroDivisionError
           else Inr (float_div fl (float_of_int fl (query_alignment_length read))
                       (query_alignment_length read + int clip))))"

definition get_pct_identity :: "'f float_ops \<Rightarrow> alignment \<Rightarrow> error + 'f" where
  "get_pct_identity fl read =
     (let edit_dist = (case tag_NM read of Some n \<Rightarrow> n | None \<Rightarrow> 0) in
      case alen read of
        None \<Rightarrow> Inl TypeError
      | Some a \<Rightarrow>
          if a = 0 then Inl ZeroDivisionError
          else Inr (one_minus fl (float_div fl (float_of_int fl edit_dist) a)))"

text \<open>
  \<^verbatim>\<open>get_mapped_reads\<close> is a generator: the result is the names it yields, in order, and
  the exception that ends it, if one does. The argument \<open>sam\<close> is the records of the file.
\<close>

fun get_mapped_reads ::
  "'f float_ops \<Rightarrow> alignment list \<Rightarrow> 'f \<Rightarrow> 'f \<Rightarrow> string list \<times> error option" where
  "get_mapped_reads fl [] min_pct_id min_len_frac = ([], None)"
| "get_mapped_reads fl (read # sam) min_pct_id min_len_frac =
     (if \<not> is_unmapped read then
        (case get_frac fl read of
           Inl e \<Rightarrow> ([], Some e)
         | Inr frac \<Rightarrow>
             if float_gt fl frac min_len_frac then
               (case get_pct_identity fl read of
                  Inl e \<Rightarrow> ([], Some e)
                | Inr pct \<Rightarrow>
                    if float_gt fl pct min_pct_id then
                      (case get_mapped_reads fl sam min_pct_id min_len_frac of
                         (names, r) \<Rightarrow> (query_name read # names, r))
                    else get_mapped_reads fl sam min_pct_id min_len_frac)
             else get_mapped_reads fl sam min_pct_id min_len_frac)
      else get_mapped_reads fl sam min_pct_id min_len_frac)"

section \<open>Notions of the specification, and a concrete environment\<close>

text \<open>
  ``Prefixed with the root when not absolute'': the path a path key stands for before
  any existence check.
\<close>

definition rooted :: "os_env \<Rightarrow> path \<Rightarrow> path \<Rightarrow> path" where
  "rooted env root p = (if is_absolute env p then p else joinpath env root p)"

text \<open>
  The root of a configuration whose \<^verbatim>\<open>all\<close> section has the items \<open>a\<close>: the verified value
  of the key \<^verbatim>\<open>root\<close> when present, the current working directory otherwise.
\<close>

definition root_of :: "os_env \<Rightarrow> (string \<times> val) list \<Rightarrow> error + path" where
  "root_of env a =
     (case map_of a ''root'' of Some rv \<Rightarrow> verify env rv | None \<Rightarrow> Inr (Path env (getcwd env)))"

text \<open>
  A small file system on which the functions can be run: a project directory with a
  symbolic link \<^verbatim>\<open>reads\<close>, a home directory, and an installation with three extension
  directories and a plain file among them.
\<close>

definition demo_env :: os_env where
  "demo_env =
     \<lparr>Path = (\<lambda>s. s),
      expanduser = (\<lambda>p. if take 2 p = ''~/'' then ''/home/user'' @ drop 1 p else p),
      is_absolute = (\<lambda>p. take 1 p = ''/''),
      joinpath = (\<lambda>p q. if take 1 q = ''/'' then q else p @ ''/'' @ q),
      exists = (\<lambda>p. p \<in> set [''/data/proj'', ''/data/proj/reads'', ''/home/user/db'', ''/refs'']),
      resolve = (\<lambda>p. if p = ''/data/proj/reads'' then ''/mnt/store/reads'' else p),
      getcwd = ''/data/proj'',
      getenv = (\<lambda>n. if n = ''SUNBEAM_DIR'' then Some ''/opt/sunbeam'' else None),
      listdir = (\<lambda>p.
        if p = ''/opt/sunbeam/extensions'' then Inr [''sbx_a'', ''README.md'', ''sbx_b'', ''sbx_c'']
        else if p = ''/opt/sunbeam/extensions/sbx_a'' then Inr [''config.yml'', ''rules'']
        else if p = ''/opt/sunbeam/extensions/README.md'' then Inl NotADirectoryError
        else if p = ''/opt/sunbeam/extensions/sbx_b'' then Inr [''rules'']
        else if p = ''/opt/sunbeam/extensions/sbx_c'' then Inr [''config.yml'']
        else Inl FileNotFoundError),
      read_text = (\<lambda>p.
        if p = ''/opt/sunbeam/extensions/sbx_a/config.yml'' then Inr ''sbx_a: {n: 1}''
        else if p = ''/opt/sunbeam/extensions/sbx_c/config.yml'' then Inr ''sbx_c: {m: 2}''
        else Inl FileNotFoundError)\<rparr>"


text \<open>
  For the extension aggregator: an entry \<open>sbx\<close> of the directory \<open>ext\<close> is a directory that
  contains \<^verbatim>\<open>config.yml\<close>; the text of that file; and what the claim takes for granted of
  every entry: listing it either raises \<^verbatim>\<open>NotADirectoryError\<close> (it is no directory) or
  succeeds, and a \<^verbatim>\<open>config.yml\<close> it lists can be read.
\<close>

definition has_config :: "os_env \<Rightarrow> path \<Rightarrow> string \<Rightarrow> bool" where
  "has_config env ext sbx \<longleftrightarrow>
     (case listdir env (joinpath env ext sbx) of
        Inr files \<Rightarrow> ''config.yml'' \<in> set files
      | Inl e \<Rightarrow> False)"

definition config_text :: "os_env \<Rightarrow> path \<Rightarrow> string \<Rightarrow> string" where
  "config_text env ext sbx =
     (case read_text env (joinpath env (joinpath env ext sbx) ''config.yml'') of
        Inr txt \<Rightarrow> txt
      | Inl e \<Rightarrow> [])"

definition listable :: "os_env \<Rightarrow> path \<Rightarrow> string \<Rightarrow> bool" where
  "listable env ext sbx \<longleftrightarrow>
     (case listdir env (joinpath env ext sbx) of
        Inl e \<Rightarrow> e = NotADirectoryError
      | Inr files \<Rightarrow>
          ''config.yml'' \<in> set files \<longrightarrow>
          (\<exists>txt. read_text env (joinpath env (joinpath env ext sbx) ''config.yml'') = Inr txt))"

text \<open>
  For the database index: \<open>db_group spec key entries\<close> says that the group \<open>key\<close> of the
  specification is the mapping with the items \<open>entries\<close>, names to relative paths as
  strings, or is absent (or \<^verbatim>\<open>None\<close>) with no entries. \<open>rooted_entries\<close> maps each entry to
  the string form of the root joined with its path.
\<close>

definition db_group :: "val \<Rightarrow> string \<Rightarrow> (string \<times> string) list \<Rightarrow> bool" where
  "db_group spec key entries \<longleftrightarrow>
     (case py_get spec key NoneV of
        Inr (Mapping m) \<Rightarrow> distinct (map fst entries) \<and> m = map (\<lambda>(db, q). (db, StrV q)) entries
      | Inr NoneV \<Rightarrow> entries = []
      | _ \<Rightarrow> False)"

definition rooted_entries :: "os_env \<Rightarrow> path \<Rightarrow> (string \<times> string) list \<Rightarrow> val" where
  "rooted_entries env root entries = Mapping (map (\<lambda>(db, q). (db, StrV (joinpath env root q))) entries)"

text \<open>
  For the read filter, in the words of the specification: the clipped length is the sum
  of the lengths of the soft and hard clips (CIGAR operations 4 and 5); the aligned
  fraction divides the aligned query length (\<^verbatim>\<open>query_alignment_length\<close>) by that length plus
  the clipped length; the percent identity is one minus the edit distance (zero without
  the tag) divided by the aligned length on the reference (\<^verbatim>\<open>alen\<close>). A record is
  measurable when both quotients are defined. \<open>exact_ops\<close> is one instance of the
  floating-point operations, exact fractions as pairs of numerator and denominator.
\<close>

definition clipped_length :: "alignment \<Rightarrow> nat" where
  "clipped_length read =
     sum_list (map snd (filter (\<lambda>pair. fst pair = 4 \<or> fst pair = 5)
                          (case cigartuples read of Some cigar \<Rightarrow> cigar | None \<Rightarrow> [])))"

definition aligned_fraction :: "'f float_ops \<Rightarrow> alignment \<Rightarrow> 'f" where
  "aligned_fraction fl read =
     float_div fl (float_of_int fl (query_alignment_length read))
       (query_alignment_length read + int (clipped_length read))"

definition percent_identity :: "'f float_ops \<Rightarrow> alignment \<Rightarrow> 'f" where
  "percent_identity fl read =
     one_minus fl
       (float_div fl (float_of_int fl (case tag_NM read of Some n \<Rightarrow> n | None \<Rightarrow> 0))
          (case alen read of Some a \<Rightarrow> a | None \<Rightarrow> 0))"

definition passes :: "'f float_ops \<Rightarrow> 'f \<Rightarrow> 'f \<Rightarrow> alignment \<Rightarrow> bool" where
  "passes fl min_pct_id min_len_frac read \<longleftrightarrow>
     \<not> is_unmapped read \<and>
     float_gt fl (aligned_fraction fl read) min_len_frac \<and>
     float_gt fl (percent_identity fl read) min_pct_id"

definition measurable :: "alignment \<Rightarrow> bool" where
  "measurable read \<longleftrightarrow>
     cigartuples read \<noteq> None \<and>
     query_alignment_length read + int (clipped_length read) \<noteq> 0 \<and>
     alen read \<noteq> None \<and> alen read \<noteq> Some 0"

definition exact_ops :: "(int \<times> int) float_ops" where
  "exact_ops =
     \<lparr>float_of_int = (\<lambda>n. (n, 1)),
      float_div = (\<lambda>x n. (fst x, snd x * n)),
      one_minus = (\<lambda>x. (snd x - fst x, snd x)),
      float_gt = (\<lambda>x y. fst y * snd x < fst x * snd y)\<rparr>"


text \<open>
  The wording that names one aligned length for both quotients: \<open>passes_one_length\<close> is
  the test of a record when the length \<open>aligned_length\<close> stands in the aligned fraction and
  in the percent identity alike. \<open>reference_length\<close> is \<^verbatim>\<open>alen\<close> as a number.
\<close>

definition reference_length :: "alignment \<Rightarrow> int" where
  "reference_length read = (case alen read of Some a \<Rightarrow> a | None \<Rightarrow> 0)"

definition passes_one_length ::
  "'f float_ops \<Rightarrow> (alignment \<Rightarrow> int) \<Rightarrow> 'f \<Rightarrow> 'f \<Rightarrow> alignment \<Rightarrow> bool" where
  "passes_one_length fl aligned_length min_pct_id min_len_frac read \<longleftrightarrow>
     \<not> is_unmapped read \<and>
     float_gt fl
       (float_div fl (float_of_int fl (aligned_length read))
          (aligned_length read + int (clipped_length read))) min_len_frac \<and>
     float_gt fl
       (one_minus fl
          (float_div fl (float_of_int fl (case tag_NM read of Some n \<Rightarrow> n | None \<Rightarrow> 0))
             (aligned_length read))) min_pct_id"

text \<open>
  Two more file systems. In \<open>bare_env\<close> the variable \<^verbatim>\<open>SUNBEAM_DIR\<close> is not set, and the
  working directory has no \<^verbatim>\<open>extensions\<close> directory. In \<open>dangling_env\<close> the \<^verbatim>\<open>extensions\<close>
  directory lists an entry \<^verbatim>\<open>stale\<close> that cannot be listed because it does not exist
  any more (a dangling link), after an extension with a \<^verbatim>\<open>config.yml\<close>.
\<close>

definition bare_env :: os_env where
  "bare_env = demo_env\<lparr>getenv := (\<lambda>n. None)\<rparr>"

definition dangling_env :: os_env where
  "dangling_env =
     demo_env\<lparr>listdir := (\<lambda>p.
       if p = ''/opt/sunbeam/extensions'' then Inr [''sbx_a'', ''stale'']
       else listdir demo_env p)\<rparr>"

section \<open>Properties of the merges\<close>

lemma map_of_None_mem: "map_of t k = None \<Longrightarrow> (k, b) \<in> set t \<Longrightarrow> False"
  by (force simp: map_of_eq_None_iff)

lemma update_dict_items_error:
  "update_dict_items target new = Inl e \<Longrightarrow> e = TypeError"
proof (induction target new rule: update_dict_items.induct)
  case (1 target)
  then show ?case by simp
next
  case (2 target k v new)
  show ?case
  proof (cases target)
    case (Mapping t)
    with 2 show ?thesis
      by (auto split: if_splits sum.splits option.splits dest: map_of_None_mem)
  qed (use 2 in \<open>auto split: if_splits sum.splits\<close>)
qed

lemma update_dict_items_non_mapping:
  assumes "\<not> isinstance_Mapping target" "new \<noteq> []"
  shows "update_dict_items target new = Inl TypeError"
proof -
  obtain k v rest where new: "new = (k, v) # rest"
    using assms(2) by (cases new) auto
  have set: "py_setitem target k r = Inl TypeError" for r
    using assms(1) by (cases target) simp_all
  have get: "py_getitem target k = Inl TypeError"
    using assms(1) by (cases target) simp_all
  show ?thesis
    unfolding new
    by (auto simp: set get split: sum.splits dest: update_dict_items_error)
       (cases target; simp)+
qed

lemma update_dict_items_mapping_into_scalar:
  assumes "map_of new k = Some (Mapping m)" "m \<noteq> []"
    and "map_of t k = Some tv" "\<not> isinstance_Mapping tv"
  shows "update_dict_items (Mapping t) new = Inl TypeError"
  using assms
proof (induction new arbitrary: t)
  case Nil
  then show ?case by simp
next
  case (Cons kv new)
  obtain k' v' where kv: "kv = (k', v')" by (cases kv)
  show ?case
  proof (cases "k' = k")
    case True
    with Cons.prems kv have v': "v' = Mapping m" by simp
    have "k \<in> fst ` set t" using Cons.prems(3) by (metis domI dom_map_of_conv_image_fst)
    then show ?thesis
      using Cons.prems True kv v'
      by (simp add: update_dict_items_non_mapping)
  next
    case False
    with Cons.prems kv have new: "map_of new k = Some (Mapping m)" by simp
    have step: "update_dict_items (Mapping (AList.update k' r t)) new = Inl TypeError" for r
      using Cons.IH[OF new Cons.prems(2) _ Cons.prems(4), of "AList.update k' r t"]
        Cons.prems(3) False
      by (simp add: update_conv')
    show ?thesis
      unfolding kv
      by (auto simp: step split: sum.splits option.splits
          dest: update_dict_items_error map_of_None_mem)
  qed
qed

lemma update_dict_strict_items_error:
  "update_dict_strict_items target new err = Inl e \<Longrightarrow> e = AttributeError"
proof (induction target new err rule: update_dict_strict_items.induct)
  case (1 target err)
  then show ?case by simp
next
  case (2 target k v new err)
  show ?case
  proof (cases target)
    case (Mapping t)
    with 2 show ?thesis
      by (auto split: if_splits sum.splits option.splits bool.splits)
  qed (use 2 in \<open>auto split: if_splits sum.splits\<close>)
qed

lemma update_dict_strict_items_non_mapping:
  assumes "\<not> isinstance_Mapping target" "new \<noteq> []"
  shows "update_dict_strict_items target new err = Inl AttributeError"
proof -
  obtain k v rest where new: "new = (k, v) # rest"
    using assms(2) by (cases new) auto
  have keys: "py_in_keys k target = Inl AttributeError"
    using assms(1) by (cases target) simp_all
  show ?thesis
    unfolding new by (simp add: keys)
qed

lemma update_dict_strict_items_mapping_into_scalar:
  assumes "map_of new k = Some (Mapping m)" "m \<noteq> []"
    and "map_of t k = Some tv" "\<not> isinstance_Mapping tv"
  shows "update_dict_strict_items (Mapping t) new err = Inl AttributeError"
  using assms
proof (induction new arbitrary: t err)
  case Nil
  then show ?case by simp
next
  case (Cons kv new)
  obtain k' v' where kv: "kv = (k', v')" by (cases kv)
  show ?case
  proof (cases "k' = k")
    case True
    with Cons.prems kv have v': "v' = Mapping m" by simp
    have "k \<in> fst ` set t" using Cons.prems(3) by (metis domI dom_map_of_conv_image_fst)
    then show ?thesis
      using Cons.prems True kv v'
      by (simp add: update_dict_strict_items_non_mapping)
  next
    case False
    with Cons.prems kv have new: "map_of new k = Some (Mapping m)" by simp
    have step: "update_dict_strict_items (Mapping (AList.update k' r t)) new e = Inl AttributeError" for r e
      using Cons.IH[OF new Cons.prems(2) _ Cons.prems(4), of "AList.update k' r t"]
        Cons.prems(3) False
      by (simp add: update_conv')
    have skip: "update_dict_strict_items (Mapping t) new e = Inl AttributeError" for e
      using Cons.IH[OF new Cons.prems(2) Cons.prems(3) Cons.prems(4)] .
    show ?thesis
      unfolding kv
      by (auto simp: step skip split: sum.splits option.splits bool.splits
          dest: update_dict_strict_items_error)
  qed
qed

lemma update_dict_strict_items_Cons_cases:
  assumes "update_dict_strict_items target ((k, v) # new) err = Inr (r, err')"
  obtains
    (recurse) t tk r1 e1 where "target = Mapping t" "isinstance_Mapping v"
      "map_of t k = Some tk"
      "update_dict_strict_items tk (items_of v) err = Inr (r1, e1)"
      "update_dict_strict_items (Mapping (AList.update k r1 t)) new e1 = Inr (r, err')"
  | (overwrite) t tk where "target = Mapping t" "\<not> isinstance_Mapping v"
      "map_of t k = Some tk"
      "update_dict_strict_items (Mapping (AList.update k v t)) new err = Inr (r, err')"
  | (skip) t where "target = Mapping t" "map_of t k = None"
      "update_dict_strict_items target new (err @ [skip_message k]) = Inr (r, err')"
proof (cases target)
  case (Mapping t)
  show ?thesis
  proof (cases "map_of t k")
    case None
    then have "k \<notin> fst ` set t" by (simp add: map_of_eq_None_iff)
    with assms Mapping have
      "update_dict_strict_items target new (err @ [skip_message k]) = Inr (r, err')"
      by (simp split: if_splits)
    with Mapping None show ?thesis by (rule skip)
  next
    case (Some tk)
    then have mem: "k \<in> fst ` set t" by (metis domI dom_map_of_conv_image_fst)
    show ?thesis
    proof (cases "isinstance_Mapping v")
      case True
      with assms Mapping Some mem obtain r1 e1 where
        "update_dict_strict_items tk (items_of v) err = Inr (r1, e1)"
        "update_dict_strict_items (Mapping (AList.update k r1 t)) new e1 = Inr (r, err')"
        by (auto split: sum.splits)
      with Mapping True Some show ?thesis by (rule recurse)
    next
      case False
      with assms Mapping Some mem have
        "update_dict_strict_items (Mapping (AList.update k v t)) new err = Inr (r, err')"
        by simp
      with Mapping False Some show ?thesis by (rule overwrite)
    qed
  qed
next
qed (use assms in \<open>simp_all split: if_splits\<close>)

lemma update_dict_strict_items_keys:
  "update_dict_strict_items (Mapping t) new err = Inr (r, err') \<Longrightarrow>
     \<exists>t'. r = Mapping t' \<and> map fst t' = map fst t"
proof (induction new arbitrary: t err)
  case Nil
  then show ?case by auto
next
  case (Cons kv new)
  obtain k v where kv: "kv = (k, v)" by (cases kv)
  from Cons.prems[unfolded kv] show ?case
  proof (cases rule: update_dict_strict_items_Cons_cases)
    case (recurse t0 tk r1 e1)
    then have mem: "k \<in> fst ` set t" by (metis domI dom_map_of_conv_image_fst val.inject(6))
    from recurse Cons.IH[of "AList.update k r1 t" e1] mem show ?thesis
      by (simp add: update_keys)
  next
    case (overwrite t0 tk)
    then have mem: "k \<in> fst ` set t" by (metis domI dom_map_of_conv_image_fst val.inject(6))
    from overwrite Cons.IH[of "AList.update k v t" err] mem show ?thesis
      by (simp add: update_keys)
  next
    case (skip t0)
    with Cons.IH[of t "err @ [skip_message k]"] show ?thesis by simp
  qed
qed

lemma update_dict_strict_items_log:
  "update_dict_strict_items target new err = Inr (r, err') \<Longrightarrow> set err \<subseteq> set err'"
proof (induction target new err arbitrary: r err' rule: update_dict_strict_items.induct)
  case (1 target err)
  then show ?case by simp
next
  case (2 target k v new err)
  from "2.prems" show ?case
  proof (cases rule: update_dict_strict_items_Cons_cases)
    case (recurse t tk r1 e1)
    then have mem: "k \<in> fst ` set t" by (metis domI dom_map_of_conv_image_fst)
    have "set err \<subseteq> set e1"
      by (rule "2.IH"(1)[where b = True and ba = tk]) (use recurse mem in simp_all)
    moreover have "set e1 \<subseteq> set err'"
      by (rule "2.IH"(2)[where b = True and ba = tk and bb = "(r1, e1)" and x = r1])
         (use recurse mem in simp_all)
    ultimately show ?thesis by blast
  next
    case (overwrite t tk)
    then have mem: "k \<in> fst ` set t" by (metis domI dom_map_of_conv_image_fst)
    show ?thesis
      by (rule "2.IH"(3)[where b = False and ba = True]) (use overwrite mem in simp_all)
  next
    case (skip t)
    then have mem: "k \<notin> fst ` set t" by (simp add: map_of_eq_None_iff)
    have "set (err @ [skip_message k]) \<subseteq> set err'"
      by (rule "2.IH"(4)[where b = False and ba = False]) (use skip mem in simp_all)
    then show ?thesis by simp
  qed
qed

lemma update_dict_strict_items_untouched:
  "update_dict_strict_items (Mapping t) new err = Inr (Mapping t', err') \<Longrightarrow>
     map_of new k = None \<Longrightarrow> map_of t' k = map_of t k"
proof (induction new arbitrary: t err)
  case Nil
  then show ?case by simp
next
  case (Cons kv new)
  obtain k0 v0 where kv: "kv = (k0, v0)" by (cases kv)
  from Cons.prems(2) kv have ne: "k0 \<noteq> k" and rest: "map_of new k = None"
    by (auto split: if_splits)
  from Cons.prems(1)[unfolded kv] show ?case
  proof (cases rule: update_dict_strict_items_Cons_cases)
    case (recurse t0 tk r1 e1)
    with Cons.IH[of "AList.update k0 r1 t" e1, OF _ rest] ne show ?thesis
      by (simp add: update_conv')
  next
    case (overwrite t0 tk)
    with Cons.IH[of "AList.update k0 v0 t" err, OF _ rest] ne show ?thesis
      by (simp add: update_conv')
  next
    case (skip t0)
    with Cons.IH[of t "err @ [skip_message k0]", OF _ rest] show ?thesis by simp
  qed
qed

lemma update_dict_strict_items_at_key:
  assumes "distinct (map fst new)"
    and "update_dict_strict_items (Mapping t) new err = Inr (Mapping t', err')"
    and "map_of new k = Some v"
  shows "case map_of t k of
           None \<Rightarrow> map_of t' k = None \<and> skip_message k \<in> set err'
         | Some tk \<Rightarrow>
             if isinstance_Mapping v
             then \<exists>e1 e2 rk. update_dict_strict_items tk (items_of v) e1 = Inr (rk, e2)
                    \<and> map_of t' k = Some rk
             else map_of t' k = Some v"
  using assms
proof (induction new arbitrary: t err)
  case Nil
  then show ?case by simp
next
  case (Cons kv new)
  obtain k0 v0 where kv: "kv = (k0, v0)" by (cases kv)
  from Cons.prems(1) kv have dist: "distinct (map fst new)" and fresh: "k0 \<notin> fst ` set new"
    by auto
  show ?case
  proof (cases "k0 = k")
    case True
    with Cons.prems(3) kv have v0: "v0 = v" by simp
    from fresh True have rest: "map_of new k = None"
      by (simp add: map_of_eq_None_iff)
    from Cons.prems(2)[unfolded kv] show ?thesis
    proof (cases rule: update_dict_strict_items_Cons_cases)
      case (recurse t0 tk r1 e1)
      from update_dict_strict_items_untouched[OF recurse(5) rest] recurse True v0
      show ?thesis by (auto simp: update_conv')
    next
      case (overwrite t0 tk)
      from update_dict_strict_items_untouched[OF overwrite(4) rest] overwrite True v0
      show ?thesis by (auto simp: update_conv')
    next
      case (skip t0)
      from update_dict_strict_items_untouched[OF skip(3)[unfolded skip(1)] rest]
        update_dict_strict_items_log[OF skip(3)] skip True
      show ?thesis by auto
    qed
  next
    case False
    with Cons.prems(3) kv have rest: "map_of new k = Some v" by simp
    from Cons.prems(2)[unfolded kv] show ?thesis
    proof (cases rule: update_dict_strict_items_Cons_cases)
      case (recurse t0 tk r1 e1)
      from Cons.IH[OF dist recurse(5) rest] recurse(1) False show ?thesis
        by (simp add: update_conv')
    next
      case (overwrite t0 tk)
      from Cons.IH[OF dist overwrite(4) rest] overwrite(1) False show ?thesis
        by (simp add: update_conv')
    next
      case (skip t0)
      from Cons.IH[OF dist skip(3)[unfolded skip(1)] rest] skip(1) show ?thesis
        by simp
    qed
  qed
qed

lemma descend_is_Mapping: "descend x ks = Some (Mapping m) \<Longrightarrow> \<exists>xm. x = Mapping xm"
  by (cases x; cases ks) simp_all

lemma well_formed_lookup:
  "well_formed (Mapping m) \<Longrightarrow> map_of m k = Some v \<Longrightarrow> well_formed v"
  by (auto simp: list_all_iff dest!: map_of_SomeD)

lemma update_dict_strict_items_deep:
  assumes "well_formed (Mapping new)"
    and "update_dict_strict_items (Mapping t) new err = Inr (r, err')"
    and "descend (Mapping t) ks = Some (Mapping tm)"
    and "descend (Mapping new) ks = Some (Mapping nm)"
  shows "\<exists>rm. descend r ks = Some (Mapping rm) \<and> map fst rm = map fst tm"
  using assms
proof (induction ks arbitrary: t new r err err')
  case Nil
  then show ?case by (auto dest: update_dict_strict_items_keys)
next
  case (Cons k ks)
  from Cons.prems(3) obtain x where x: "map_of t k = Some x" "descend x ks = Some (Mapping tm)"
    by (auto split: option.splits)
  from Cons.prems(4) obtain y where y: "map_of new k = Some y" "descend y ks = Some (Mapping nm)"
    by (auto split: option.splits)
  from x(2) obtain tx where tx: "x = Mapping tx" by (auto dest: descend_is_Mapping)
  from y(2) obtain ny where ny: "y = Mapping ny" by (auto dest: descend_is_Mapping)
  from update_dict_strict_items_keys[OF Cons.prems(2)] obtain t' where r: "r = Mapping t'"
    by auto
  from Cons.prems(1) have dist: "distinct (map fst new)" by simp
  from update_dict_strict_items_at_key[OF dist Cons.prems(2)[unfolded r] y(1)] x(1) ny tx
  obtain e1 e2 rk where
    rk: "update_dict_strict_items (Mapping tx) ny e1 = Inr (rk, e2)" "map_of t' k = Some rk"
    by auto
  have wf: "well_formed (Mapping ny)"
    using well_formed_lookup[OF Cons.prems(1) y(1)] ny by simp
  from Cons.IH[OF wf rk(1) x(2)[unfolded tx] y(2)[unfolded ny]] rk(2) r
  show ?case by simp
qed

section \<open>The claims about the merges\<close>

text \<open>
  Claim C5. The lenient merge returns the target unchanged when \<open>new\<close> is the empty mapping,
  for every target; and merging \<^verbatim>\<open>{'a': {'x': 1}}\<close> and then \<^verbatim>\<open>{'a': {'y': 2}}\<close> into the empty
  mapping gives \<^verbatim>\<open>{'a': {'x': 1, 'y': 2}}\<close>.
\<close>

theorem update_dict_empty_identity_and_nested:
  "update_dict target (Mapping []) = Inr target \<and>
   (\<exists>t1. update_dict (Mapping []) (Mapping [(''a'', Mapping [(''x'', IntV 1)])]) = Inr t1 \<and>
      update_dict t1 (Mapping [(''a'', Mapping [(''y'', IntV 2)])]) =
        Inr (Mapping [(''a'', Mapping [(''x'', IntV 1), (''y'', IntV 2)])]))"
  by (simp add: update_dict_def)

text \<open>
  Claim C10, as stated, fails where the nested mapping in \<open>new\<close> is empty: the loop over
  its items never runs, and both merges return the target with its scalar untouched.
\<close>

theorem merge_empty_mapping_into_scalar_succeeds:
  "update_dict (Mapping [(''k'', IntV 5)]) (Mapping [(''k'', Mapping [])]) =
     Inr (Mapping [(''k'', IntV 5)]) \<and>
   update_dict_strict (Mapping [(''k'', IntV 5)]) (Mapping [(''k'', Mapping [])]) [] =
     Inr (Mapping [(''k'', IntV 5)], [])"
  by (simp add: update_dict_def update_dict_strict_def)

text \<open>
  Claim C10, amended. Where \<open>new\<close> maps a key \<open>k\<close> to a non-empty nested mapping and
  the target maps \<open>k\<close> to a value that is no mapping, both merges raise: the lenient one
  \<^verbatim>\<open>TypeError\<close>, the strict one \<^verbatim>\<open>AttributeError\<close>. Neither returns a result.
\<close>

theorem merge_mapping_into_non_mapping_fails:
  assumes "py_getitem new k = Inr (Mapping m)" and "m \<noteq> []"
    and "py_getitem target k = Inr tv" and "\<not> isinstance_Mapping tv"
  shows "update_dict target new = Inl TypeError \<and>
         update_dict_strict target new err = Inl AttributeError"
proof -
  from assms(1) obtain n where n: "new = Mapping n" "map_of n k = Some (Mapping m)"
    by (cases new) (auto split: option.splits)
  from assms(3) obtain t where t: "target = Mapping t" "map_of t k = Some tv"
    by (cases target) (auto split: option.splits)
  show ?thesis
    unfolding n(1) t(1) update_dict_def update_dict_strict_def
    using update_dict_items_mapping_into_scalar[OF n(2) assms(2) t(2) assms(4)]
      update_dict_strict_items_mapping_into_scalar[OF n(2) assms(2) t(2) assms(4)]
    by simp
qed

theorem merge_mapping_into_non_mapping_fails_witness:
  "update_dict (Mapping [(''k'', IntV 5)]) (Mapping [(''k'', Mapping [(''x'', IntV 1)])]) =
     Inl TypeError \<and>
   update_dict_strict (Mapping [(''k'', IntV 5)]) (Mapping [(''k'', Mapping [(''x'', IntV 1)])]) [] =
     Inl AttributeError"
proof -
  have h1: "py_getitem (Mapping [(''k'', Mapping [(''x'', IntV 1)])]) ''k'' =
      Inr (Mapping [(''x'', IntV 1)])" by simp
  have h2: "[(''x'', IntV 1)] \<noteq> []" by simp
  have h3: "py_getitem (Mapping [(''k'', IntV 5)]) ''k'' = Inr (IntV 5)" by simp
  have h4: "\<not> isinstance_Mapping (IntV 5)" by simp
  show ?thesis
    using merge_mapping_into_non_mapping_fails[OF h1 h2 h3 h4, of "[]"] by simp
qed

text \<open>
  Claim C4. When the strict merge of a mapping \<open>new\<close> into a mapping target returns, the
  result is a mapping with the keys of the target, in the target's order: no key is
  added. The same holds at every nesting level reached through keys whose values are
  mappings on both sides. For each key \<open>k\<close> of \<open>new\<close>: if the target lacks it, the result
  lacks it too and the diagnostic for \<open>k\<close> has been written; if the target has it and the
  new value is a mapping, the result holds the strict merge of the two values; if the
  target has it and the new value is no mapping, the result holds the new value.
\<close>

theorem update_dict_strict_never_adds_keys:
  assumes "well_formed new"
    and "update_dict_strict (Mapping t) new err = Inr (r, err')"
  shows "(\<exists>t'. r = Mapping t' \<and> map fst t' = map fst t) \<and>
    (\<forall>ks tm nm.
        descend (Mapping t) ks = Some (Mapping tm) \<and> descend new ks = Some (Mapping nm) \<longrightarrow>
        (\<exists>rm. descend r ks = Some (Mapping rm) \<and> map fst rm = map fst tm)) \<and>
    (\<forall>k v. py_getitem new k = Inr v \<longrightarrow>
        (case map_of t k of
           None \<Rightarrow> descend r [k] = None \<and> skip_message k \<in> set err'
         | Some tk \<Rightarrow>
             if isinstance_Mapping v
             then \<exists>e1 e2 rk. update_dict_strict tk v e1 = Inr (rk, e2) \<and> descend r [k] = Some rk
             else descend r [k] = Some v))"
proof -
  from assms(2) obtain n where n: "new = Mapping n"
    by (cases new) (simp_all add: update_dict_strict_def)
  from assms(2) have run: "update_dict_strict_items (Mapping t) n err = Inr (r, err')"
    by (simp add: n update_dict_strict_def)
  from update_dict_strict_items_keys[OF run] obtain t' where
    r: "r = Mapping t'" and keys: "map fst t' = map fst t" by auto
  from assms(1) n have wf: "well_formed (Mapping n)" and dist: "distinct (map fst n)"
    by simp_all
  have deep: "\<exists>rm. descend r ks = Some (Mapping rm) \<and> map fst rm = map fst tm"
    if "descend (Mapping t) ks = Some (Mapping tm)" "descend new ks = Some (Mapping nm)"
    for ks tm nm
    using update_dict_strict_items_deep[OF wf run that(1) that(2)[unfolded n]] .
  have at_key: "case map_of t k of
           None \<Rightarrow> descend r [k] = None \<and> skip_message k \<in> set err'
         | Some tk \<Rightarrow>
             if isinstance_Mapping v
             then \<exists>e1 e2 rk. update_dict_strict tk v e1 = Inr (rk, e2) \<and> descend r [k] = Some rk
             else descend r [k] = Some v"
    if "py_getitem new k = Inr v" for k v
  proof -
    from that n have v: "map_of n k = Some v" by (simp split: option.splits)
    have items: "isinstance_Mapping v \<Longrightarrow> update_dict_strict tk v e = update_dict_strict_items tk (items_of v) e" for tk e
      by (cases v) (simp_all add: update_dict_strict_def)
    from update_dict_strict_items_at_key[OF dist run[unfolded r] v] show ?thesis
      by (cases "isinstance_Mapping v") (fastforce simp: r items split: option.splits)+
  qed
  from r keys deep at_key show ?thesis by blast
qed

theorem update_dict_strict_never_adds_keys_witness:
  "well_formed (Mapping [(''a'', Mapping [(''x'', IntV 10), (''z'', IntV 9)]), (''b'', IntV 4), (''c'', IntV 5)]) \<and>
   update_dict_strict
     (Mapping [(''a'', Mapping [(''x'', IntV 1), (''y'', IntV 2)]), (''b'', IntV 3)])
     (Mapping [(''a'', Mapping [(''x'', IntV 10), (''z'', IntV 9)]), (''b'', IntV 4), (''c'', IntV 5)]) [] =
     Inr (Mapping [(''a'', Mapping [(''x'', IntV 10), (''y'', IntV 2)]), (''b'', IntV 4)],
          [skip_message ''z'', skip_message ''c'']) \<and>
   (\<exists>rm. descend (Mapping [(''a'', Mapping [(''x'', IntV 10), (''y'', IntV 2)]), (''b'', IntV 4)]) [''a''] =
      Some (Mapping rm) \<and> map fst rm = [''x'', ''y''])"
proof -
  let ?new = "Mapping [(''a'', Mapping [(''x'', IntV 10), (''z'', IntV 9)]), (''b'', IntV 4), (''c'', IntV 5)]"
  let ?t = "[(''a'', Mapping [(''x'', IntV 1), (''y'', IntV 2)]), (''b'', IntV 3)]"
  let ?r = "Mapping [(''a'', Mapping [(''x'', IntV 10), (''y'', IntV 2)]), (''b'', IntV 4)]"
  have h1: "well_formed ?new" by simp
  have h2: "update_dict_strict (Mapping ?t) ?new [] = Inr (?r, [skip_message ''z'', skip_message ''c''])"
    by (simp add: update_dict_strict_def)
  show ?thesis
    using h1 h2 update_dict_strict_never_adds_keys[OF h1 h2] by simp
qed

section \<open>Properties of the validators\<close>

lemma update_fresh: "k \<notin> fst ` set al \<Longrightarrow> AList.update k v al = al @ [(k, v)]"
  by (induction al) auto

lemma validate_paths_loop_cfg:
  "validate_paths_loop env root kvs st = Inr st' \<Longrightarrow> vp_cfg st' = vp_cfg st"
  by (induction kvs arbitrary: st) (auto split: sum.splits)

lemma validate_paths_loop_new:
  assumes "distinct (map fst kvs)" and "fst ` set (vp_new_cfg st) \<inter> fst ` set kvs = {}"
    and "validate_paths_loop env root kvs st = Inr st'"
  shows "\<exists>vs. vp_new_cfg st' = vp_new_cfg st @ vs \<and> map fst vs = map fst kvs \<and>
           (\<forall>k v. (k, v) \<in> set kvs \<longrightarrow> (\<exists>v'. validate_value env root k v = Inr v' \<and> (k, v') \<in> set vs))"
  using assms
proof (induction kvs arbitrary: st)
  case Nil
  then show ?case by simp
next
  case (Cons kv kvs)
  obtain k v where kv: "kv = (k, v)" by (cases kv)
  from Cons.prems(3) kv obtain v' where
    v': "validate_value env root k v = Inr v'" and
    run: "validate_paths_loop env root kvs (st\<lparr>vp_new_cfg := AList.update k v' (vp_new_cfg st)\<rparr>) = Inr st'"
    by (auto split: sum.splits)
  from Cons.prems(2) kv have fresh: "k \<notin> fst ` set (vp_new_cfg st)" by auto
  have upd: "AList.update k v' (vp_new_cfg st) = vp_new_cfg st @ [(k, v')]"
    by (rule update_fresh[OF fresh])
  from Cons.prems(1) kv have dist: "distinct (map fst kvs)" and knew: "k \<notin> fst ` set kvs"
    by auto
  have disj: "fst ` set (vp_new_cfg (st\<lparr>vp_new_cfg := AList.update k v' (vp_new_cfg st)\<rparr>)) \<inter> fst ` set kvs = {}"
    using Cons.prems(2) knew kv by (auto simp: upd)
  from Cons.IH[OF dist disj run] obtain vs where
    vs: "vp_new_cfg st' = (vp_new_cfg st @ [(k, v')]) @ vs" "map fst vs = map fst kvs"
      "\<forall>k v. (k, v) \<in> set kvs \<longrightarrow> (\<exists>v'. validate_value env root k v = Inr v' \<and> (k, v') \<in> set vs)"
    by (auto simp: upd)
  show ?case
  proof (intro exI[of _ "(k, v') # vs"] conjI allI impI)
    show "vp_new_cfg st' = vp_new_cfg st @ (k, v') # vs" using vs(1) by simp
    show "map fst ((k, v') # vs) = map fst (kv # kvs)" using vs(2) kv by simp
  next
    fix k0 v0 assume "(k0, v0) \<in> set (kv # kvs)"
    then show "\<exists>v'a. validate_value env root k0 v0 = Inr v'a \<and> (k0, v'a) \<in> set ((k, v') # vs)"
      using kv v' vs(3) by auto
  qed
qed

lemma validate_paths_loop_total:
  assumes "\<forall>k v. (k, v) \<in> set kvs \<longrightarrow> (\<exists>v'. validate_value env root k v = Inr v')"
  shows "\<exists>st'. validate_paths_loop env root kvs st = Inr st'"
  using assms
proof (induction kvs arbitrary: st)
  case Nil
  then show ?case by simp
next
  case (Cons kv kvs)
  obtain k v where kv: "kv = (k, v)" by (cases kv)
  from Cons.prems kv obtain v' where v': "validate_value env root k v = Inr v'" by auto
  from Cons.prems have "\<forall>k v. (k, v) \<in> set kvs \<longrightarrow> (\<exists>v'. validate_value env root k v = Inr v')" by simp
  from Cons.IH[OF this] show ?case by (simp add: kv v')
qed

lemma validate_value_not_fp:
  "\<not> endswith k ''_fp'' \<Longrightarrow> validate_value env root k v = Inr v"
  by (simp add: validate_value_def)

lemma validate_value_output_fp:
  "validate_value env root ''output_fp'' v =
     (case makepath env v of Inl e \<Rightarrow> Inl e | Inr p \<Rightarrow> Inr (PathV (rooted env root p)))"
  by (auto simp: validate_value_def endswith_def rooted_def Let_def split: sum.splits)

lemma verify_PathV:
  "verify env (PathV p) = (if exists env p then Inr (resolve env p) else Inl (ValueError (verify_message p)))"
  by (simp add: verify_def)

lemma validate_value_fp:
  assumes "endswith k ''_fp''" "k \<noteq> ''output_fp''"
  shows "validate_value env root k v =
     (case makepath env v of
        Inl e \<Rightarrow> Inl e
      | Inr p \<Rightarrow> if exists env (rooted env root p) then Inr (PathV (resolve env (rooted env root p)))
                 else Inl (ValueError (key_message k (rooted env root p))))"
  using assms
  by (auto simp: validate_value_def rooted_def Let_def verify_PathV split: sum.splits)

lemma validate_paths_run_result:
  assumes "distinct (map fst S)" and "validate_paths_run env (Mapping S) r = Inr st"
  shows "vp_cfg st = Mapping S" and "map fst (vp_new_cfg st) = map fst S"
    and "(k, v) \<in> set S \<Longrightarrow> \<exists>v'. validate_value env r k v = Inr v' \<and> map_of (vp_new_cfg st) k = Some v'"
proof -
  from assms(2) have run:
    "validate_paths_loop env r S \<lparr>vp_cfg = Mapping S, vp_new_cfg = []\<rparr> = Inr st"
    by (simp add: validate_paths_run_def)
  from validate_paths_loop_cfg[OF run] show "vp_cfg st = Mapping S" by simp
  from validate_paths_loop_new[OF assms(1) _ run] obtain vs where
    vs: "vp_new_cfg st = vs" "map fst vs = map fst S"
      "\<forall>k v. (k, v) \<in> set S \<longrightarrow> (\<exists>v'. validate_value env r k v = Inr v' \<and> (k, v') \<in> set vs)"
    by auto
  from vs show "map fst (vp_new_cfg st) = map fst S" by simp
  assume "(k, v) \<in> set S"
  with vs(3) obtain v' where v': "validate_value env r k v = Inr v'" "(k, v') \<in> set vs" by blast
  have "distinct (map fst vs)" using vs(2) assms(1) by simp
  from map_of_is_SomeI[OF this v'(2)] v'(1) vs(1)
  show "\<exists>v'. validate_value env r k v = Inr v' \<and> map_of (vp_new_cfg st) k = Some v'" by auto
qed

text \<open>
  Claim C2. For a section \<open>S\<close> and a root \<open>r\<close>, whenever \<^verbatim>\<open>validate_paths\<close> returns: the
  argument still holds \<open>S\<close> and the result is a new dictionary with the keys of \<open>S\<close>; a key
  that does not end in \<^verbatim>\<open>_fp\<close> keeps its value; a key that ends in \<^verbatim>\<open>_fp\<close> holds the
  home-expanded value, prefixed with \<open>r\<close> when not absolute, taken as it is under
  \<^verbatim>\<open>output_fp\<close> and canonicalised by \<^verbatim>\<open>verify\<close> under any other key. It returns whenever
  every item validates. For the section \<^verbatim>\<open>{output_fp: q}\<close> it always returns, whether the
  path exists or not, and the result is \<open>r/q\<close> for a \<open>q\<close> that is not absolute.
\<close>

theorem validate_paths_section:
  assumes "distinct (map fst S)"
  shows
    "(\<forall>st. validate_paths_run env (Mapping S) r = Inr st \<longrightarrow>
        vp_cfg st = Mapping S \<and>
        validate_paths env (Mapping S) r = Inr (Mapping (vp_new_cfg st)) \<and>
        map fst (vp_new_cfg st) = map fst S \<and>
        (\<forall>k v. map_of S k = Some v \<longrightarrow>
           (if endswith k ''_fp''
            then \<exists>p. makepath env v = Inr p \<and>
                   map_of (vp_new_cfg st) k =
                     Some (PathV (if k = ''output_fp'' then rooted env r p
                                  else resolve env (rooted env r p)))
            else map_of (vp_new_cfg st) k = Some v))) \<and>
     ((\<forall>k v. (k, v) \<in> set S \<longrightarrow> (\<exists>v'. validate_value env r k v = Inr v')) \<longrightarrow>
        (\<exists>st. validate_paths_run env (Mapping S) r = Inr st)) \<and>
     validate_paths env (Mapping [(''output_fp'', StrV q)]) r =
       Inr (Mapping [(''output_fp'', PathV (rooted env r (expanduser env (Path env q))))]) \<and>
     (\<not> is_absolute env (expanduser env (Path env q)) \<longrightarrow>
        validate_paths env (Mapping [(''output_fp'', StrV q)]) r =
          Inr (Mapping [(''output_fp'', PathV (joinpath env r (expanduser env (Path env q))))]))"
proof (intro conjI allI impI)
  fix st assume run: "validate_paths_run env (Mapping S) r = Inr st"
  from validate_paths_run_result(1)[OF assms run] show "vp_cfg st = Mapping S" .
  from run show "validate_paths env (Mapping S) r = Inr (Mapping (vp_new_cfg st))"
    by (simp add: validate_paths_def)
  from validate_paths_run_result(2)[OF assms run] show "map fst (vp_new_cfg st) = map fst S" .
  fix k v assume "map_of S k = Some v"
  then have mem: "(k, v) \<in> set S" by (rule map_of_SomeD)
  from validate_paths_run_result(3)[OF assms run mem] obtain v' where
    v': "validate_value env r k v = Inr v'" "map_of (vp_new_cfg st) k = Some v'" by blast
  show "if endswith k ''_fp''
        then \<exists>p. makepath env v = Inr p \<and>
               map_of (vp_new_cfg st) k =
                 Some (PathV (if k = ''output_fp'' then rooted env r p
                              else resolve env (rooted env r p)))
        else map_of (vp_new_cfg st) k = Some v"
  proof (cases "endswith k ''_fp''")
    case False
    with v' show ?thesis by (simp add: validate_value_not_fp)
  next
    case True
    show ?thesis
    proof (cases "k = ''output_fp''")
      case out: True
      with v' True show ?thesis
        by (auto simp: validate_value_output_fp split: sum.splits)
    next
      case other: False
      with v' True show ?thesis
        by (auto simp: validate_value_fp split: sum.splits if_splits)
    qed
  qed
next
  assume "\<forall>k v. (k, v) \<in> set S \<longrightarrow> (\<exists>v'. validate_value env r k v = Inr v')"
  from validate_paths_loop_total[OF this]
  show "\<exists>st. validate_paths_run env (Mapping S) r = Inr st"
    by (simp add: validate_paths_run_def)
next
  show "validate_paths env (Mapping [(''output_fp'', StrV q)]) r =
       Inr (Mapping [(''output_fp'', PathV (rooted env r (expanduser env (Path env q))))])"
    by (simp add: validate_paths_def validate_paths_run_def validate_value_output_fp makepath_def)
next
  assume "\<not> is_absolute env (expanduser env (Path env q))"
  then show "validate_paths env (Mapping [(''output_fp'', StrV q)]) r =
          Inr (Mapping [(''output_fp'', PathV (joinpath env r (expanduser env (Path env q))))])"
    by (simp add: validate_paths_def validate_paths_run_def validate_value_output_fp makepath_def
        rooted_def)
qed

lemma validate_paths_loop_first_error:
  assumes "(k, v) \<in> set kvs" and "validate_value env root k v = Inl e"
  shows "\<exists>k' v' e'. (k', v') \<in> set kvs \<and> validate_value env root k' v' = Inl e' \<and>
           validate_paths_loop env root kvs st = Inl e'"
  using assms
proof (induction kvs arbitrary: st)
  case Nil
  then show ?case by simp
next
  case (Cons kv kvs)
  obtain k0 v0 where kv: "kv = (k0, v0)" by (cases kv)
  show ?case
  proof (cases "validate_value env root k0 v0")
    case (Inl e0)
    then show ?thesis using kv by auto
  next
    case (Inr v0')
    with Cons.prems kv have "(k, v) \<in> set kvs" by auto
    from Cons.IH[OF this Cons.prems(2),
        of "st\<lparr>vp_new_cfg := AList.update k0 v0' (vp_new_cfg st)\<rparr>"]
    obtain k' v' e' where "(k', v') \<in> set kvs" "validate_value env root k' v' = Inl e'"
      "validate_paths_loop env root kvs
         (st\<lparr>vp_new_cfg := AList.update k0 v0' (vp_new_cfg st)\<rparr>) = Inl e'"
      by blast
    then show ?thesis
      by (intro exI[of _ k'] exI[of _ v'] exI[of _ e']) (simp add: kv Inr)
  qed
qed

lemma validate_value_error:
  assumes "validate_value env root k v = Inl e" and "makepath env v = Inr p"
  shows "endswith k ''_fp'' \<and> k \<noteq> ''output_fp'' \<and> \<not> exists env (rooted env root p) \<and>
         e = ValueError (key_message k (rooted env root p))"
proof -
  from assms(1) have fp: "endswith k ''_fp''"
    by (auto simp: validate_value_def split: if_splits)
  from assms fp have ne: "k \<noteq> ''output_fp''"
    by (auto simp: validate_value_output_fp)
  from assms show ?thesis
    by (auto simp: validate_value_fp[OF fp ne] fp ne split: if_splits)
qed

lemma validate_paths_Inl:
  "validate_paths env (Mapping S) r = Inl e \<longleftrightarrow>
   validate_paths_loop env r S \<lparr>vp_cfg = Mapping S, vp_new_cfg = []\<rparr> = Inl e"
  by (auto simp: validate_paths_def validate_paths_run_def split: sum.splits)

lemma sublist_key_message:
  "sublist k (key_message k p) \<and> sublist p (key_message k p)"
  unfolding key_message_def sublist_def
  by (metis append.assoc)

lemma sublist_verify_message: "sublist p (verify_message p)"
  unfolding verify_message_def sublist_def by blast

lemma check_config_missing_root:
  assumes "py_getitem cfg ''all'' = Inr (Mapping a)" and "map_of a ''root'' = Some rv"
    and "to_path env rv = Inr p" and "\<not> exists env p"
  shows "check_config env cfg = Inl (ValueError (verify_message p))"
proof -
  from assms(2) have "''root'' \<in> fst ` set a" by (metis domI dom_map_of_conv_image_fst)
  with assms show ?thesis
    by (simp add: check_config_def verify_def)
qed

text \<open>
  Claim C3, amended. A path key other than \<^verbatim>\<open>output_fp\<close> whose path does not exist makes
  \<^verbatim>\<open>validate_paths\<close> fail; when every path key holds a string or a path, the failure is
  the \<^verbatim>\<open>ValueError\<close> with the text \<^verbatim>\<open>For key '<key>': path '<path>' does not exist\<close> for
  such a key of the section (the first one), and that text names the key and the path.
  A declared root that does not exist makes \<^verbatim>\<open>check_config\<close> fail with the \<^verbatim>\<open>ValueError\<close>
  of \<^verbatim>\<open>verify\<close>, whose text \<^verbatim>\<open>Path <path> does not exist\<close> names the path only.
\<close>

theorem missing_path_raises_ValueError:
  "(\<forall>k v p. (k, v) \<in> set S \<and> endswith k ''_fp'' \<and> k \<noteq> ''output_fp'' \<and>
        makepath env v = Inr p \<and> \<not> exists env (rooted env r p) \<longrightarrow>
      (\<exists>e. validate_paths env (Mapping S) r = Inl e) \<and>
      ((\<forall>k' v'. (k', v') \<in> set S \<and> endswith k' ''_fp'' \<longrightarrow> (\<exists>p'. makepath env v' = Inr p')) \<longrightarrow>
       (\<exists>k' v' p'. (k', v') \<in> set S \<and> endswith k' ''_fp'' \<and> k' \<noteq> ''output_fp'' \<and>
          makepath env v' = Inr p' \<and> \<not> exists env (rooted env r p') \<and>
          validate_paths env (Mapping S) r = Inl (ValueError (key_message k' (rooted env r p'))))) \<and>
      validate_paths env (Mapping [(k, v)]) r = Inl (ValueError (key_message k (rooted env r p))) \<and>
      sublist k (key_message k (rooted env r p)) \<and>
      sublist (rooted env r p) (key_message k (rooted env r p))) \<and>
   (\<forall>a rv p. py_getitem cfg ''all'' = Inr (Mapping a) \<and> map_of a ''root'' = Some rv \<and>
        to_path env rv = Inr p \<and> \<not> exists env p \<longrightarrow>
      check_config env cfg = Inl (ValueError (verify_message p)) \<and>
      sublist p (verify_message p))"
proof (intro conjI allI impI)
  fix k v p
  assume h: "(k, v) \<in> set S \<and> endswith k ''_fp'' \<and> k \<noteq> ''output_fp'' \<and>
        makepath env v = Inr p \<and> \<not> exists env (rooted env r p)"
  then have bad: "validate_value env r k v = Inl (ValueError (key_message k (rooted env r p)))"
    by (simp add: validate_value_fp)
  from h have mem: "(k, v) \<in> set S" by simp
  from validate_paths_loop_first_error[OF mem bad]
  obtain k' v' e' where first: "(k', v') \<in> set S" "validate_value env r k' v' = Inl e'"
    "validate_paths_loop env r S \<lparr>vp_cfg = Mapping S, vp_new_cfg = []\<rparr> = Inl e'"
    by blast
  then show "\<exists>e. validate_paths env (Mapping S) r = Inl e"
    by (auto simp: validate_paths_Inl)
  show "validate_paths env (Mapping [(k, v)]) r = Inl (ValueError (key_message k (rooted env r p)))"
    by (simp add: validate_paths_Inl bad)
  show "sublist k (key_message k (rooted env r p))"
    and "sublist (rooted env r p) (key_message k (rooted env r p))"
    by (simp_all add: sublist_key_message)
  assume typed: "\<forall>k' v'. (k', v') \<in> set S \<and> endswith k' ''_fp'' \<longrightarrow> (\<exists>p'. makepath env v' = Inr p')"
  from first(2) have fp: "endswith k' ''_fp''"
    by (auto simp: validate_value_def split: if_splits)
  with typed first(1) obtain p' where p': "makepath env v' = Inr p'" by blast
  from validate_value_error[OF first(2) p'] first(1,3) p' fp
  show "\<exists>k' v' p'. (k', v') \<in> set S \<and> endswith k' ''_fp'' \<and> k' \<noteq> ''output_fp'' \<and>
          makepath env v' = Inr p' \<and> \<not> exists env (rooted env r p') \<and>
          validate_paths env (Mapping S) r = Inl (ValueError (key_message k' (rooted env r p')))"
    by (auto simp: validate_paths_Inl)
next
  fix a rv p
  assume "py_getitem cfg ''all'' = Inr (Mapping a) \<and> map_of a ''root'' = Some rv \<and>
        to_path env rv = Inr p \<and> \<not> exists env p"
  then show "check_config env cfg = Inl (ValueError (verify_message p))"
    by (auto intro: check_config_missing_root)
next
  fix a rv p
  show "sublist p (verify_message p)" by (rule sublist_verify_message)
qed

lemma check_config_sections_new:
  assumes "distinct (map fst secs)" and "fst ` set acc \<inter> fst ` set secs = {}"
    and "check_config_sections env root secs acc = Inr res"
  shows "\<exists>vs. res = acc @ vs \<and> map fst vs = map fst secs \<and>
           (\<forall>s v. (s, v) \<in> set secs \<longrightarrow> (\<exists>v'. validate_paths env v root = Inr v' \<and> (s, v') \<in> set vs))"
  using assms
proof (induction secs arbitrary: acc)
  case Nil
  then show ?case by simp
next
  case (Cons sv secs)
  obtain s v where sv: "sv = (s, v)" by (cases sv)
  from Cons.prems(3) sv obtain v' where
    v': "validate_paths env v root = Inr v'" and
    run: "check_config_sections env root secs (AList.update s v' acc) = Inr res"
    by (auto split: sum.splits)
  from Cons.prems(2) sv have fresh: "s \<notin> fst ` set acc" by auto
  have upd: "AList.update s v' acc = acc @ [(s, v')]"
    by (rule update_fresh[OF fresh])
  from Cons.prems(1) sv have dist: "distinct (map fst secs)" and snew: "s \<notin> fst ` set secs"
    by auto
  have disj: "fst ` set (AList.update s v' acc) \<inter> fst ` set secs = {}"
    using Cons.prems(2) snew sv by (auto simp: upd)
  from Cons.IH[OF dist disj run] obtain vs where
    vs: "res = (acc @ [(s, v')]) @ vs" "map fst vs = map fst secs"
      "\<forall>s v. (s, v) \<in> set secs \<longrightarrow> (\<exists>v'. validate_paths env v root = Inr v' \<and> (s, v') \<in> set vs)"
    by (auto simp: upd)
  show ?case
  proof (intro exI[of _ "(s, v') # vs"] conjI allI impI)
    show "res = acc @ (s, v') # vs" using vs(1) by simp
    show "map fst ((s, v') # vs) = map fst (sv # secs)" using vs(2) sv by simp
  next
    fix s0 v0 assume "(s0, v0) \<in> set (sv # secs)"
    then show "\<exists>v'a. validate_paths env v0 root = Inr v'a \<and> (s0, v'a) \<in> set ((s, v') # vs)"
      using sv v' vs(3) by auto
  qed
qed

lemma check_config_sections_total:
  assumes "\<forall>s v. (s, v) \<in> set secs \<longrightarrow> (\<exists>v'. validate_paths env v root = Inr v')"
  shows "\<exists>res. check_config_sections env root secs acc = Inr res"
  using assms
proof (induction secs arbitrary: acc)
  case Nil
  then show ?case by simp
next
  case (Cons sv secs)
  obtain s v where sv: "sv = (s, v)" by (cases sv)
  from Cons.prems sv obtain v' where v': "validate_paths env v root = Inr v'" by auto
  from Cons.prems have "\<forall>s v. (s, v) \<in> set secs \<longrightarrow> (\<exists>v'. validate_paths env v root = Inr v')" by simp
  from Cons.IH[OF this] show ?case by (simp add: sv v')
qed

lemma validate_paths_Inr_Mapping:
  "validate_paths env v root = Inr v' \<Longrightarrow> (\<exists>m. v = Mapping m) \<and> (\<exists>m'. v' = Mapping m')"
  by (cases v) (auto simp: validate_paths_def validate_paths_run_def split: sum.splits)

lemma check_config_unfold:
  assumes "map_of sections ''all'' = Some (Mapping a)"
  shows "check_config env (Mapping sections) =
     (case root_of env a of
        Inl e \<Rightarrow> Inl e
      | Inr root \<Rightarrow>
          (case check_config_sections env root sections [] of
             Inl e \<Rightarrow> Inl e
           | Inr new_cfg \<Rightarrow>
               (case py_getitem (Mapping new_cfg) ''all'' of
                  Inl e \<Rightarrow> Inl e
                | Inr new_all \<Rightarrow>
                    (case py_setitem new_all ''root'' (PathV root) of
                       Inl e \<Rightarrow> Inl e
                     | Inr new_all' \<Rightarrow> Inr (Mapping (AList.update ''all'' new_all' new_cfg))))))"
proof (cases "map_of a ''root''")
  case None
  then have "''root'' \<notin> fst ` set a" by (simp add: map_of_eq_None_iff)
  with assms None show ?thesis
    by (simp add: check_config_def root_of_def split: sum.splits)
next
  case (Some rv)
  then have "''root'' \<in> fst ` set a" by (metis domI dom_map_of_conv_image_fst)
  with assms Some show ?thesis
    by (simp add: check_config_def root_of_def split: sum.splits)
qed

text \<open>
  Claim C1. For a configuration tree with an \<^verbatim>\<open>all\<close> section, whenever \<^verbatim>\<open>check_config\<close>
  returns: the root is the verified value of \<^verbatim>\<open>cfg['all']['root']\<close> when that key is
  present and the current working directory otherwise; the result has the sections of
  the input, each one the result of \<^verbatim>\<open>validate_paths\<close> with that root (the \<^verbatim>\<open>all\<close> section
  with the key \<^verbatim>\<open>root\<close> set); and \<^verbatim>\<open>result['all']['root']\<close> is the root, present in the
  input or not. It returns whenever the root is determined and every section validates.
\<close>

theorem check_config_resolves_root:
  assumes "distinct (map fst sections)" and "map_of sections ''all'' = Some all_section"
  shows
    "(\<forall>res. check_config env (Mapping sections) = Inr res \<longrightarrow>
        (\<exists>root a. all_section = Mapping a \<and> root_of env a = Inr root \<and>
           map fst (items_of res) = map fst sections \<and>
           (\<forall>s v. (s, v) \<in> set sections \<longrightarrow>
              (\<exists>v'. validate_paths env v root = Inr v' \<and>
                 descend res [s] =
                   Some (if s = ''all''
                         then Mapping (AList.update ''root'' (PathV root) (items_of v'))
                         else v'))) \<and>
           descend res [''all'', ''root''] = Some (PathV root))) \<and>
     (\<forall>root a. all_section = Mapping a \<and> root_of env a = Inr root \<and>
        (\<forall>s v. (s, v) \<in> set sections \<longrightarrow> (\<exists>v'. validate_paths env v root = Inr v')) \<longrightarrow>
        (\<exists>res. check_config env (Mapping sections) = Inr res))"
proof (intro conjI allI impI)
  fix res assume ok: "check_config env (Mapping sections) = Inr res"
  have mem_all: "(''all'', all_section) \<in> set sections"
    using assms(2) by (rule map_of_SomeD)
  have "\<exists>a. all_section = Mapping a"
  proof (rule ccontr)
    assume no: "\<nexists>a. all_section = Mapping a"
    have fail: "validate_paths env all_section root = Inl AttributeError" for root
      using no by (cases all_section) (simp_all add: validate_paths_def validate_paths_run_def)
    have "\<exists>e. check_config_sections env root sections acc = Inl e" for root acc
      using mem_all
    proof (induction sections arbitrary: acc)
      case Nil
      then show ?case by simp
    next
      case (Cons sv sections)
      then show ?case
        by (cases sv) (auto simp: fail split: sum.splits)
    qed
    then have no_secs: "check_config_sections env root sections [] \<noteq> Inr x" for root x
      by (metis Inl_Inr_False)
    have "\<exists>e. check_config env (Mapping sections) = Inl e"
      using assms(2)
      by (auto simp: check_config_def no_secs split: sum.splits)
    with ok show False by simp
  qed
  then obtain a where a: "all_section = Mapping a" by blast
  note unf = check_config_unfold[OF assms(2)[unfolded a], of env]
  from ok unf obtain root new_cfg new_all new_all' where
    root: "root_of env a = Inr root" and
    secs: "check_config_sections env root sections [] = Inr new_cfg" and
    get: "py_getitem (Mapping new_cfg) ''all'' = Inr new_all" and
    set: "py_setitem new_all ''root'' (PathV root) = Inr new_all'" and
    res: "res = Mapping (AList.update ''all'' new_all' new_cfg)"
    by (auto split: sum.splits)
  from check_config_sections_new[OF assms(1) _ secs] have
    keys: "map fst new_cfg = map fst sections" and
    each: "\<And>s v. (s, v) \<in> set sections \<Longrightarrow>
             \<exists>v'. validate_paths env v root = Inr v' \<and> (s, v') \<in> set new_cfg"
    by auto
  have dist: "distinct (map fst new_cfg)" using keys assms(1) by simp
  from each[OF mem_all] obtain v_all where
    v_all: "validate_paths env all_section root = Inr v_all" "(''all'', v_all) \<in> set new_cfg"
    by blast
  from map_of_is_SomeI[OF dist v_all(2)] get have new_all: "new_all = v_all" by simp
  from validate_paths_Inr_Mapping[OF v_all(1)] obtain m where m: "v_all = Mapping m" by blast
  from set new_all m have new_all': "new_all' = Mapping (AList.update ''root'' (PathV root) m)"
    by simp
  have all_key: "''all'' \<in> fst ` set new_cfg" using v_all(2) by force
  have "map fst (AList.update ''all'' new_all' new_cfg) = map fst new_cfg"
    using all_key by (simp add: update_keys)
  then have "map fst (items_of res) = map fst sections"
    using res keys by simp
  moreover have "\<exists>v'. validate_paths env v root = Inr v' \<and>
                 descend res [s] =
                   Some (if s = ''all''
                         then Mapping (AList.update ''root'' (PathV root) (items_of v'))
                         else v')"
    if "(s, v) \<in> set sections" for s v
  proof -
    from each[OF that] obtain v' where
      v': "validate_paths env v root = Inr v'" "(s, v') \<in> set new_cfg" by blast
    from map_of_is_SomeI[OF dist v'(2)] have look: "map_of new_cfg s = Some v'" .
    show ?thesis
    proof (cases "s = ''all''")
      case True
      with look map_of_is_SomeI[OF dist v_all(2)] have "v' = v_all" by simp
      with True v' res new_all' m show ?thesis
        by (auto simp: update_conv')
    next
      case False
      with v' look res show ?thesis by (auto simp: update_conv')
    qed
  qed
  moreover have "descend res [''all'', ''root''] = Some (PathV root)"
    using res new_all' by (simp add: update_conv')
  ultimately show "\<exists>root a. all_section = Mapping a \<and> root_of env a = Inr root \<and>
           map fst (items_of res) = map fst sections \<and>
           (\<forall>s v. (s, v) \<in> set sections \<longrightarrow>
              (\<exists>v'. validate_paths env v root = Inr v' \<and>
                 descend res [s] =
                   Some (if s = ''all''
                         then Mapping (AList.update ''root'' (PathV root) (items_of v'))
                         else v'))) \<and>
           descend res [''all'', ''root''] = Some (PathV root)"
    using a root by blast
next
  fix root a
  assume h: "all_section = Mapping a \<and> root_of env a = Inr root \<and>
        (\<forall>s v. (s, v) \<in> set sections \<longrightarrow> (\<exists>v'. validate_paths env v root = Inr v'))"
  then have a: "all_section = Mapping a" and root: "root_of env a = Inr root"
    and each: "\<forall>s v. (s, v) \<in> set sections \<longrightarrow> (\<exists>v'. validate_paths env v root = Inr v')"
    by simp_all
  from check_config_sections_total[OF each] obtain new_cfg where
    secs: "check_config_sections env root sections [] = Inr new_cfg" by blast
  from check_config_sections_new[OF assms(1) _ secs] have
    keys: "map fst new_cfg = map fst sections" and
    vals: "\<And>s v. (s, v) \<in> set sections \<Longrightarrow>
             \<exists>v'. validate_paths env v root = Inr v' \<and> (s, v') \<in> set new_cfg"
    by auto
  have dist: "distinct (map fst new_cfg)" using keys assms(1) by simp
  from vals[OF map_of_SomeD[OF assms(2)]] obtain v_all where
    v_all: "validate_paths env all_section root = Inr v_all" "(''all'', v_all) \<in> set new_cfg"
    by blast
  from validate_paths_Inr_Mapping[OF v_all(1)] obtain m where m: "v_all = Mapping m" by blast
  from map_of_is_SomeI[OF dist v_all(2)] have "map_of new_cfg ''all'' = Some (Mapping m)"
    using m by simp
  then show "\<exists>res. check_config env (Mapping sections) = Inr res"
    using check_config_unfold[OF assms(2)[unfolded a], of env] root secs by simp
qed

lemmas demo_defs = demo_env_def validate_paths_def validate_paths_run_def validate_value_def
  makepath_def verify_def endswith_def rooted_def check_config_def verify_message_def

theorem validate_paths_section_witness:
  "distinct (map fst [(''threads'', IntV 4), (''reads_fp'', StrV ''reads''),
                      (''output_fp'', StrV ''out''), (''db_fp'', StrV ''~/db'')]) \<and>
   \<not> exists demo_env ''/data/proj/out'' \<and>
   validate_paths_run demo_env
     (Mapping [(''threads'', IntV 4), (''reads_fp'', StrV ''reads''),
               (''output_fp'', StrV ''out''), (''db_fp'', StrV ''~/db'')]) ''/data/proj'' =
     Inr \<lparr>vp_cfg = Mapping [(''threads'', IntV 4), (''reads_fp'', StrV ''reads''),
                             (''output_fp'', StrV ''out''), (''db_fp'', StrV ''~/db'')],
          vp_new_cfg = [(''threads'', IntV 4), (''reads_fp'', PathV ''/mnt/store/reads''),
                        (''output_fp'', PathV ''/data/proj/out''),
                        (''db_fp'', PathV ''/home/user/db'')]\<rparr> \<and>
   validate_paths demo_env (Mapping [(''output_fp'', StrV ''out'')]) ''/data/proj'' =
     Inr (Mapping [(''output_fp'', PathV ''/data/proj/out'')])"
proof -
  let ?S = "[(''threads'', IntV 4), (''reads_fp'', StrV ''reads''),
             (''output_fp'', StrV ''out''), (''db_fp'', StrV ''~/db'')]"
  have d: "distinct (map fst ?S)" by simp
  have run: "validate_paths_run demo_env (Mapping ?S) ''/data/proj'' =
     Inr \<lparr>vp_cfg = Mapping ?S,
          vp_new_cfg = [(''threads'', IntV 4), (''reads_fp'', PathV ''/mnt/store/reads''),
                        (''output_fp'', PathV ''/data/proj/out''),
                        (''db_fp'', PathV ''/home/user/db'')]\<rparr>"
    by (simp add: demo_defs)
  have rel: "\<not> is_absolute demo_env (expanduser demo_env (Path demo_env ''out''))"
    by (simp add: demo_env_def)
  have out: "validate_paths demo_env (Mapping [(''output_fp'', StrV ''out'')]) ''/data/proj'' =
       Inr (Mapping [(''output_fp'', PathV (joinpath demo_env ''/data/proj''
          (expanduser demo_env (Path demo_env ''out''))))])"
    using validate_paths_section[OF d, of demo_env "''/data/proj''" "''out''"] rel by blast
  have ne: "\<not> exists demo_env ''/data/proj/out''" by (simp add: demo_env_def)
  from out have "validate_paths demo_env (Mapping [(''output_fp'', StrV ''out'')]) ''/data/proj'' =
     Inr (Mapping [(''output_fp'', PathV ''/data/proj/out'')])"
    by (simp add: demo_env_def)
  with d ne run show ?thesis by blast
qed

text \<open>
  Claim C3, as stated, fails for the declared root: the message of the error raised for
  a missing root does not name the key \<^verbatim>\<open>root\<close>.
\<close>

theorem root_message_omits_key:
  "check_config demo_env (Mapping [(''all'', Mapping [(''root'', StrV ''/missing'')])]) =
     Inl (ValueError ''Path /missing does not exist'') \<and>
   \<not> sublist ''root'' ''Path /missing does not exist''"
  by (simp add: demo_defs sublist_code(3))

theorem missing_path_raises_ValueError_witness:
  "validate_paths demo_env (Mapping [(''threads'', IntV 4), (''host_fp'', StrV ''hosts'')]) ''/data/proj'' =
     Inl (ValueError (key_message ''host_fp'' ''/data/proj/hosts'')) \<and>
   check_config demo_env (Mapping [(''all'', Mapping [(''root'', StrV ''/missing'')])]) =
     Inl (ValueError (verify_message ''/missing''))"
proof -
  let ?S = "[(''threads'', IntV 4), (''host_fp'', StrV ''hosts'')]"
  let ?cfg = "Mapping [(''all'', Mapping [(''root'', StrV ''/missing'')])]"
  note inst = missing_path_raises_ValueError[where S = ?S and env = demo_env
      and r = "''/data/proj''" and cfg = ?cfg]
  have h1: "(''host_fp'', StrV ''hosts'') \<in> set ?S \<and> endswith ''host_fp'' ''_fp'' \<and>
      ''host_fp'' \<noteq> ''output_fp'' \<and> makepath demo_env (StrV ''hosts'') = Inr ''hosts'' \<and>
      \<not> exists demo_env (rooted demo_env ''/data/proj'' ''hosts'')"
    by (simp add: demo_defs)
  have typed: "\<forall>k' v'. (k', v') \<in> set ?S \<and> endswith k' ''_fp'' \<longrightarrow> (\<exists>p'. makepath demo_env v' = Inr p')"
    by (auto simp: demo_defs)
  from inst h1 typed obtain k' v' p' where
    "(k', v') \<in> set ?S" "endswith k' ''_fp''" "makepath demo_env v' = Inr p'"
    "validate_paths demo_env (Mapping ?S) ''/data/proj'' =
       Inl (ValueError (key_message k' (rooted demo_env ''/data/proj'' p')))"
    by blast
  then have a: "validate_paths demo_env (Mapping ?S) ''/data/proj'' =
     Inl (ValueError (key_message ''host_fp'' ''/data/proj/hosts''))"
    by (auto simp: demo_defs)
  have h2: "py_getitem ?cfg ''all'' = Inr (Mapping [(''root'', StrV ''/missing'')]) \<and>
      map_of [(''root'', StrV ''/missing'')] ''root'' = Some (StrV ''/missing'') \<and>
      to_path demo_env (StrV ''/missing'') = Inr ''/missing'' \<and> \<not> exists demo_env ''/missing''"
    by (simp add: demo_env_def)
  from inst h2 have b: "check_config demo_env ?cfg = Inl (ValueError (verify_message ''/missing''))"
    by blast
  from a b show ?thesis by blast
qed

theorem check_config_resolves_root_witness:
  "distinct (map fst [(''all'', Mapping [(''project_fp'', StrV ''reads''), (''version'', StrV ''3.2.1'')]),
                      (''qc'', Mapping [(''threads'', IntV 4), (''output_fp'', StrV ''qc_out'')])]) \<and>
   check_config demo_env
     (Mapping [(''all'', Mapping [(''project_fp'', StrV ''reads''), (''version'', StrV ''3.2.1'')]),
               (''qc'', Mapping [(''threads'', IntV 4), (''output_fp'', StrV ''qc_out'')])]) =
     Inr (Mapping [(''all'', Mapping [(''project_fp'', PathV ''/mnt/store/reads''),
                                      (''version'', StrV ''3.2.1''),
                                      (''root'', PathV ''/data/proj'')]),
                   (''qc'', Mapping [(''threads'', IntV 4),
                                     (''output_fp'', PathV ''/data/proj/qc_out'')])]) \<and>
   root_of demo_env [(''project_fp'', StrV ''reads''), (''version'', StrV ''3.2.1'')] = Inr ''/data/proj''"
proof -
  let ?all = "Mapping [(''project_fp'', StrV ''reads''), (''version'', StrV ''3.2.1'')]"
  let ?secs = "[(''all'', ?all), (''qc'', Mapping [(''threads'', IntV 4), (''output_fp'', StrV ''qc_out'')])]"
  have d: "distinct (map fst ?secs)" by simp
  have a: "map_of ?secs ''all'' = Some ?all" by simp
  note inst = check_config_resolves_root[OF d a, of demo_env]
  have root: "root_of demo_env [(''project_fp'', StrV ''reads''), (''version'', StrV ''3.2.1'')] = Inr ''/data/proj''"
    by (simp add: root_of_def demo_env_def)
  have each: "\<forall>s v. (s, v) \<in> set ?secs \<longrightarrow> (\<exists>v'. validate_paths demo_env v ''/data/proj'' = Inr v')"
    by (auto simp: demo_defs)
  from inst root each obtain res where res: "check_config demo_env (Mapping ?secs) = Inr res"
    by blast
  then have "check_config demo_env (Mapping ?secs) =
     Inr (Mapping [(''all'', Mapping [(''project_fp'', PathV ''/mnt/store/reads''),
                                      (''version'', StrV ''3.2.1''),
                                      (''root'', PathV ''/data/proj'')]),
                   (''qc'', Mapping [(''threads'', IntV 4),
                                     (''output_fp'', PathV ''/data/proj/qc_out'')])])"
    by (simp add: demo_defs)
  with d root show ?thesis by blast
qed

section \<open>Properties of the version check, the extensions and the databases\<close>

lemmas version_defs = Version_def parse_version_def is_digit_def is_ident_char_def
  has_leading_zero_def int_of_digits_def Let_def

lemma Version_zero: "Version (StrV ''0.0.0'') =
    Inr \<lparr>major = 0, minor = 0, patch = 0, prerelease = [], build = []\<rparr>"
  by (simp add: version_defs)

lemma Version_321: "Version (StrV ''3.2.1'') =
    Inr \<lparr>major = 3, minor = 2, patch = 1, prerelease = [], build = []\<rparr>"
  by (simp add: version_defs)

lemma Version_prerelease_build: "Version (StrV ''3.2.1-rc.1+build.5'') =
    Inr \<lparr>major = 3, minor = 2, patch = 1, prerelease = [''rc'', ''1''], build = [''build'', ''5'']\<rparr>"
  by (simp add: version_defs)

lemma Version_two_digits: "Version (StrV ''12.0.7'') =
    Inr \<lparr>major = 12, minor = 0, patch = 7, prerelease = [], build = []\<rparr>"
  by (simp add: version_defs)

lemma Version_leading_zero: "Version (StrV ''03.2.1'') = Inl (ValueError ''Invalid leading zero'')"
  by (simp add: version_defs)
lemma Version_two_parts: "Version (StrV ''3.2'') = Inl (ValueError ''Invalid version string'')"
  by (simp add: version_defs)
lemma Version_empty_prerelease: "Version (StrV ''3.2.1-'') = Inl (ValueError ''Invalid version string'')"
  by (simp add: version_defs)
lemma Version_empty_identifier: "Version (StrV ''3.2.1-a..b'') = Inl (ValueError ''Invalid identifier'')"
  by (simp add: version_defs)
lemma Version_trailing_space: "Version (StrV ''3.2.1 '') = Inl (ValueError ''Invalid version string'')"
  by (simp add: version_defs)

text \<open>
  Claim C8. For a configuration tree with an \<^verbatim>\<open>all\<close> section, \<^verbatim>\<open>check_compatibility\<close> returns
  the pair of the major version of the package and the major version of the
  configuration, the latter parsed from \<^verbatim>\<open>cfg['all']['version']\<close> or from \<^verbatim>\<open>"0.0.0"\<close> when
  the key is absent, whenever both version strings parse and whether the two majors agree
  or not. So \<^verbatim>\<open>{'all': {}}\<close> gives \<open>(pkg_major, 0)\<close> and \<^verbatim>\<open>{'all': {'version': '3.2.1'}}\<close>
  gives \<open>(pkg_major, 3)\<close>.
\<close>

theorem check_compatibility_majors:
  assumes "py_getitem cfg ''all'' = Inr (Mapping a)" and "Version (StrV pv) = Inr pkg"
  shows "(\<forall>c. Version (case map_of a ''version'' of Some v \<Rightarrow> v | None \<Rightarrow> StrV ''0.0.0'') = Inr c \<longrightarrow>
            check_compatibility pv cfg = Inr (major pkg, major c)) \<and>
         check_compatibility pv (Mapping [(''all'', Mapping [])]) = Inr (major pkg, 0) \<and>
         check_compatibility pv (Mapping [(''all'', Mapping [(''version'', StrV ''3.2.1'')])]) =
           Inr (major pkg, 3)"
  using assms
  by (simp add: check_compatibility_def Version_zero Version_321)

theorem check_compatibility_majors_witness:
  "check_compatibility ''4.0.0''
     (Mapping [(''all'', Mapping [(''root'', StrV ''/data/proj''), (''version'', StrV ''3.2.1'')])]) =
   Inr (4, 3)"
proof -
  let ?a = "[(''root'', StrV ''/data/proj''), (''version'', StrV ''3.2.1'')]"
  have h1: "py_getitem (Mapping [(''all'', Mapping ?a)]) ''all'' = Inr (Mapping ?a)" by simp
  have h2: "Version (StrV ''4.0.0'') =
      Inr \<lparr>major = 4, minor = 0, patch = 0, prerelease = [], build = []\<rparr>"
    by (simp add: version_defs)
  have h3: "Version (case map_of ?a ''version'' of Some v \<Rightarrow> v | None \<Rightarrow> StrV ''0.0.0'') =
      Inr \<lparr>major = 3, minor = 2, patch = 1, prerelease = [], build = []\<rparr>"
    by (simp add: Version_321)
  from check_compatibility_majors[OF h1 h2] h3 show ?thesis by simp
qed

lemma extension_config_loop_concat:
  assumes "\<forall>sbx \<in> set sbxs. listable env ext sbx"
  shows "extension_config_loop env ext sbxs config =
     Inr (config @ concat (map (\<lambda>sbx. CHR 0x0A # config_text env ext sbx)
                            (filter (has_config env ext) sbxs)))"
  using assms
proof (induction sbxs arbitrary: config)
  case Nil
  then show ?case by simp
next
  case (Cons sbx sbxs)
  from Cons.prems have here: "listable env ext sbx"
    and rest: "\<forall>sbx \<in> set sbxs. listable env ext sbx" by simp_all
  note IH = Cons.IH[OF rest]
  show ?case
  proof (cases "listdir env (joinpath env ext sbx)")
    case (Inl e)
    with here have "e = NotADirectoryError" by (simp add: listable_def)
    with Inl show ?thesis by (simp add: IH has_config_def)
  next
    case (Inr files)
    show ?thesis
    proof (cases "''config.yml'' \<in> set files")
      case False
      with Inr show ?thesis by (simp add: IH has_config_def)
    next
      case True
      with here Inr obtain content where
        "read_text env (joinpath env (joinpath env ext sbx) ''config.yml'') = Inr content"
        by (auto simp: listable_def)
      with Inr True show ?thesis by (simp add: IH has_config_def config_text_def)
    qed
  qed
qed

text \<open>
  Claim C6, as stated, fails in two places. Where the extensions root has no
  \<^verbatim>\<open>extensions\<close> directory, no extension is present, and \<^verbatim>\<open>extension_config\<close> raises the
  \<^verbatim>\<open>FileNotFoundError\<close> of \<^verbatim>\<open>os.listdir\<close> instead of returning the empty string. Where an
  entry that is no directory cannot be listed for another reason than
  \<^verbatim>\<open>NotADirectoryError\<close>, it is not skipped: the error ends the call, and the text of the
  extension before it is lost.
\<close>

theorem extension_config_raises_FileNotFoundError:
  "listdir bare_env (extensions_dir bare_env) = Inl FileNotFoundError \<and>
   extension_config bare_env = Inl FileNotFoundError \<and>
   listdir dangling_env (extensions_dir dangling_env) = Inr [''sbx_a'', ''stale''] \<and>
   has_config dangling_env (extensions_dir dangling_env) ''sbx_a'' \<and>
   extension_config dangling_env = Inl FileNotFoundError"
  by (simp add: extension_config_def extensions_dir_def has_config_def bare_env_def
      dangling_env_def demo_env_def)

text \<open>
  Claim C6, amended. When the \<^verbatim>\<open>extensions\<close> directory of the extensions root can be
  listed, with the entries \<open>sbxs\<close>, and listing an entry either succeeds or raises
  \<^verbatim>\<open>NotADirectoryError\<close>, a listed \<^verbatim>\<open>config.yml\<close> being readable: \<^verbatim>\<open>extension_config\<close> returns
  the concatenation, in listing order, of a newline followed by the text of \<^verbatim>\<open>config.yml\<close>
  for each entry that is a directory containing that file; entries that are no
  directories and directories without the file contribute nothing. With no such entry
  the result is the empty string.
\<close>

theorem extension_config_concatenates:
  assumes "listdir env (extensions_dir env) = Inr sbxs"
    and "\<forall>sbx \<in> set sbxs. listable env (extensions_dir env) sbx"
  shows "extension_config env =
           Inr (concat (map (\<lambda>sbx. CHR 0x0A # config_text env (extensions_dir env) sbx)
                          (filter (has_config env (extensions_dir env)) sbxs))) \<and>
         (filter (has_config env (extensions_dir env)) sbxs = [] \<longrightarrow> extension_config env = Inr [])"
  using assms(1) extension_config_loop_concat[OF assms(2), of "[]"]
  by (simp add: extension_config_def)

theorem extension_config_concatenates_witness:
  "listdir demo_env (extensions_dir demo_env) = Inr [''sbx_a'', ''README.md'', ''sbx_b'', ''sbx_c''] \<and>
   extension_config demo_env =
     Inr ([CHR 0x0A] @ ''sbx_a: {n: 1}'' @ [CHR 0x0A] @ ''sbx_c: {m: 2}'')"
proof -
  let ?sbxs = "[''sbx_a'', ''README.md'', ''sbx_b'', ''sbx_c'']"
  have ext: "extensions_dir demo_env = ''/opt/sunbeam/extensions''"
    by (simp add: extensions_dir_def demo_env_def)
  have h1: "listdir demo_env (extensions_dir demo_env) = Inr ?sbxs"
    by (simp add: ext) (simp add: demo_env_def)
  have h2: "\<forall>sbx \<in> set ?sbxs. listable demo_env (extensions_dir demo_env) sbx"
    by (simp add: ext) (simp add: listable_def demo_env_def)
  have sel: "filter (has_config demo_env ''/opt/sunbeam/extensions'') ?sbxs = [''sbx_a'', ''sbx_c'']"
    by (simp add: has_config_def demo_env_def)
  from extension_config_concatenates[OF h1 h2]
  have "extension_config demo_env =
      Inr (concat (map (\<lambda>sbx. CHR 0x0A # config_text demo_env ''/opt/sunbeam/extensions'' sbx)
             [''sbx_a'', ''sbx_c'']))"
    by (simp only: ext sel)
  then have "extension_config demo_env =
     Inr ([CHR 0x0A] @ ''sbx_a: {n: 1}'' @ [CHR 0x0A] @ ''sbx_c: {m: 2}'')"
    by (simp add: config_text_def demo_env_def)
  with h1 show ?thesis by blast
qed

lemma expand_databases_map:
  assumes "distinct (map fst entries)" and "fst ` set acc \<inter> fst ` set entries = {}"
  shows "expand_databases env root (map (\<lambda>(db, q). (db, StrV q)) entries) acc =
     Inr (acc @ map (\<lambda>(db, q). (db, StrV (joinpath env root q))) entries)"
  using assms
proof (induction entries arbitrary: acc)
  case Nil
  then show ?case by simp
next
  case (Cons e entries)
  obtain db q where e: "e = (db, q)" by (cases e)
  from Cons.prems e have fresh: "db \<notin> fst ` set acc" by auto
  have upd: "AList.update db (StrV (joinpath env root q)) acc = acc @ [(db, StrV (joinpath env root q))]"
    by (rule update_fresh[OF fresh])
  from Cons.prems e have dist: "distinct (map fst entries)" and "db \<notin> fst ` set entries"
    by auto
  with Cons.prems(2) e have
    disj: "fst ` set (acc @ [(db, StrV (joinpath env root q))]) \<inter> fst ` set entries = {}"
    by auto
  from Cons.IH[OF dist disj] show ?case by (simp add: e upd)
qed

lemma expand_group_db_group:
  assumes "db_group spec key entries"
  shows "\<exists>g. py_get spec key NoneV = Inr g \<and>
     expand_group env root g out st =
       Inr (if entries = [] then st
            else st\<lparr>pd_dbs := AList.update out (rooted_entries env root entries) (pd_dbs st)\<rparr>)"
proof (cases "py_get spec key NoneV")
  case (Inl e)
  with assms show ?thesis by (simp add: db_group_def)
next
  case (Inr g)
  show ?thesis
  proof (cases g)
    case NoneV
    with Inr assms show ?thesis by (simp add: db_group_def expand_group_def)
  next
    case (Mapping m)
    with Inr assms have d: "distinct (map fst entries)"
      and m: "m = map (\<lambda>(db, q). (db, StrV q)) entries"
      by (simp_all add: db_group_def)
    have "expand_databases env root m [] =
        Inr (map (\<lambda>(db, q). (db, StrV (joinpath env root q))) entries)"
      unfolding m using expand_databases_map[OF d, of "[]" env root] by simp
    with Inr Mapping m show ?thesis
      by (auto simp: expand_group_def rooted_entries_def)
  qed (use Inr assms in \<open>simp_all add: db_group_def\<close>)
qed

text \<open>
  Claim C7. For a specification with a \<^verbatim>\<open>root_fp\<close> whose home-expanded path is \<open>p\<close>: when
  \<open>p\<close> does not exist, \<^verbatim>\<open>process_databases\<close> fails with the \<^verbatim>\<open>ValueError\<close> of \<^verbatim>\<open>verify\<close>; when
  it exists, the result has exactly the keys \<^verbatim>\<open>nucl\<close> and \<^verbatim>\<open>prot\<close>, the group \<^verbatim>\<open>nucleotide\<close>
  under \<^verbatim>\<open>nucl\<close> and the group \<^verbatim>\<open>protein\<close> under \<^verbatim>\<open>prot\<close>, each entry mapped to the string
  form of the resolved root joined with its path, an absent group giving the empty
  mapping; and the argument still holds the specification.
\<close>

theorem process_databases_expands:
  assumes "py_getitem spec ''root_fp'' = Inr rv" and "makepath env rv = Inr p"
  shows
    "(\<not> exists env p \<longrightarrow> process_databases env spec = Inl (ValueError (verify_message p))) \<and>
     (exists env p \<and> db_group spec ''nucleotide'' nucl \<and> db_group spec ''protein'' prot \<longrightarrow>
        process_databases_run env spec =
          Inr \<lparr>pd_db_dict = spec,
               pd_dbs = [(''nucl'', rooted_entries env (resolve env p) nucl),
                         (''prot'', rooted_entries env (resolve env p) prot)]\<rparr> \<and>
        process_databases env spec =
          Inr (Mapping [(''nucl'', rooted_entries env (resolve env p) nucl),
                        (''prot'', rooted_entries env (resolve env p) prot)]))"
proof (intro conjI impI)
  assume "\<not> exists env p"
  with assms show "process_databases env spec = Inl (ValueError (verify_message p))"
    by (simp add: process_databases_def process_databases_run_def verify_def)
next
  assume h: "exists env p \<and> db_group spec ''nucleotide'' nucl \<and> db_group spec ''protein'' prot"
  let ?root = "resolve env p"
  let ?st0 = "\<lparr>pd_db_dict = spec, pd_dbs = [(''nucl'', Mapping []), (''prot'', Mapping [])]\<rparr>"
  from h have v: "verify env (PathV p) = Inr ?root" by (simp add: verify_def)
  from h expand_group_db_group[of spec "''nucleotide''" nucl env ?root "''nucl''" ?st0]
  obtain g1 where g1: "py_get spec ''nucleotide'' NoneV = Inr g1"
    "expand_group env ?root g1 ''nucl'' ?st0 =
       Inr (if nucl = [] then ?st0
            else ?st0\<lparr>pd_dbs := AList.update ''nucl'' (rooted_entries env ?root nucl) (pd_dbs ?st0)\<rparr>)"
    by blast
  let ?st1 = "\<lparr>pd_db_dict = spec,
                pd_dbs = [(''nucl'', rooted_entries env ?root nucl), (''prot'', Mapping [])]\<rparr>"
  from g1(2) have e1: "expand_group env ?root g1 ''nucl'' ?st0 = Inr ?st1"
    by (simp add: rooted_entries_def)
  from h expand_group_db_group[of spec "''protein''" prot env ?root "''prot''" ?st1]
  obtain g2 where g2: "py_get spec ''protein'' NoneV = Inr g2"
    "expand_group env ?root g2 ''prot'' ?st1 =
       Inr (if prot = [] then ?st1
            else ?st1\<lparr>pd_dbs := AList.update ''prot'' (rooted_entries env ?root prot) (pd_dbs ?st1)\<rparr>)"
    by blast
  from g2(2) have e2: "expand_group env ?root g2 ''prot'' ?st1 =
      Inr \<lparr>pd_db_dict = spec,
           pd_dbs = [(''nucl'', rooted_entries env ?root nucl),
                     (''prot'', rooted_entries env ?root prot)]\<rparr>"
    by (simp add: rooted_entries_def)
  show run: "process_databases_run env spec =
          Inr \<lparr>pd_db_dict = spec,
               pd_dbs = [(''nucl'', rooted_entries env (resolve env p) nucl),
                         (''prot'', rooted_entries env (resolve env p) prot)]\<rparr>"
    using assms v g1(1) g2(1) e1 e2 by (simp add: process_databases_run_def)
  then show "process_databases env spec =
          Inr (Mapping [(''nucl'', rooted_entries env (resolve env p) nucl),
                        (''prot'', rooted_entries env (resolve env p) prot)])"
    by (simp add: process_databases_def)
qed

theorem process_databases_expands_witness:
  "process_databases demo_env
     (Mapping [(''root_fp'', StrV ''~/db''), (''nucleotide'', Mapping [(''db1'', StrV ''n/db1.fa'')])]) =
     Inr (Mapping [(''nucl'', Mapping [(''db1'', StrV ''/home/user/db/n/db1.fa'')]),
                   (''prot'', Mapping [])]) \<and>
   process_databases demo_env (Mapping [(''root_fp'', StrV ''/nowhere'')]) =
     Inl (ValueError ''Path /nowhere does not exist'')"
proof -
  let ?spec = "Mapping [(''root_fp'', StrV ''~/db''), (''nucleotide'', Mapping [(''db1'', StrV ''n/db1.fa'')])]"
  have h1: "py_getitem ?spec ''root_fp'' = Inr (StrV ''~/db'')" by simp
  have h2: "makepath demo_env (StrV ''~/db'') = Inr ''/home/user/db''"
    by (simp add: makepath_def demo_env_def)
  have h3: "exists demo_env ''/home/user/db'' \<and>
      db_group ?spec ''nucleotide'' [(''db1'', ''n/db1.fa'')] \<and> db_group ?spec ''protein'' []"
    by (simp add: db_group_def demo_env_def)
  from process_databases_expands[OF h1 h2, of "[(''db1'', ''n/db1.fa'')]" "[]"] h3
  have "process_databases demo_env ?spec =
      Inr (Mapping [(''nucl'', rooted_entries demo_env (resolve demo_env ''/home/user/db'') [(''db1'', ''n/db1.fa'')]),
                    (''prot'', rooted_entries demo_env (resolve demo_env ''/home/user/db'') [])])"
    by blast
  then have a: "process_databases demo_env ?spec =
     Inr (Mapping [(''nucl'', Mapping [(''db1'', StrV ''/home/user/db/n/db1.fa'')]),
                   (''prot'', Mapping [])])"
    by (simp add: rooted_entries_def demo_env_def)
  have k1: "py_getitem (Mapping [(''root_fp'', StrV ''/nowhere'')]) ''root_fp'' = Inr (StrV ''/nowhere'')"
    by simp
  have k2: "makepath demo_env (StrV ''/nowhere'') = Inr ''/nowhere''"
    by (simp add: makepath_def demo_env_def)
  have k3: "\<not> exists demo_env ''/nowhere''" by (simp add: demo_env_def)
  from process_databases_expands[OF k1 k2, of "[]" "[]"] k3
  have b: "process_databases demo_env (Mapping [(''root_fp'', StrV ''/nowhere'')]) =
     Inl (ValueError ''Path /nowhere does not exist'')"
    by (simp add: verify_message_def)
  from a b show ?thesis by blast
qed

section \<open>Properties of the read filter\<close>

lemma clip_loop_sum:
  "clip_loop cigar clip =
     clip + sum_list (map snd (filter (\<lambda>pair. fst pair = 4 \<or> fst pair = 5) cigar))"
  by (induction cigar arbitrary: clip) auto

lemma get_frac_measurable:
  "measurable read \<Longrightarrow> get_frac fl read = Inr (aligned_fraction fl read)"
  by (auto simp: measurable_def get_frac_def aligned_fraction_def clipped_length_def
      clip_loop_sum Let_def)

lemma get_pct_identity_measurable:
  "measurable read \<Longrightarrow> get_pct_identity fl read = Inr (percent_identity fl read)"
  by (auto simp: measurable_def get_pct_identity_def percent_identity_def Let_def
      split: option.splits)

text \<open>
  Claim C9, as stated, fails in two ways. On a stream with a mapped record of reference
  length zero the generator raises \<^verbatim>\<open>ZeroDivisionError\<close> at that record, and a record
  after it that passes all three tests is never yielded. And the two quotients do not
  share one aligned length: the fraction is computed from the aligned query length and
  the identity from the aligned reference length, so whichever of the two lengths is
  taken for both, some record passes the tests as worded and is not yielded.
\<close>

theorem get_mapped_reads_raises_and_two_lengths:
  "get_mapped_reads exact_ops
     [\<lparr>is_unmapped = False, cigartuples = Some [(0, 100)], query_alignment_length = 100,
       alen = Some 100, tag_NM = None, query_name = ''r4''\<rparr>,
      \<lparr>is_unmapped = False, cigartuples = Some [(1, 20)], query_alignment_length = 20,
       alen = Some 0, tag_NM = None, query_name = ''rd''\<rparr>,
      \<lparr>is_unmapped = False, cigartuples = Some [(4, 10), (0, 90)], query_alignment_length = 90,
       alen = Some 90, tag_NM = Some 3, query_name = ''r1''\<rparr>]
     (1, 2) (3, 5) =
     ([''r4''], Some ZeroDivisionError) \<and>
   passes exact_ops (1, 2) (3, 5)
     \<lparr>is_unmapped = False, cigartuples = Some [(4, 10), (0, 90)], query_alignment_length = 90,
      alen = Some 90, tag_NM = Some 3, query_name = ''r1''\<rparr> \<and>
   passes_one_length exact_ops query_alignment_length (1, 2) (3, 5)
     \<lparr>is_unmapped = False, cigartuples = Some [(4, 10), (0, 90)], query_alignment_length = 90,
      alen = Some 90, tag_NM = Some 3, query_name = ''r1''\<rparr> \<and>
   passes_one_length exact_ops reference_length (1, 2) (3, 5)
     \<lparr>is_unmapped = False, cigartuples = Some [(4, 10), (0, 90)], query_alignment_length = 90,
      alen = Some 90, tag_NM = Some 3, query_name = ''r1''\<rparr> \<and>
   get_mapped_reads exact_ops
     [\<lparr>is_unmapped = False, cigartuples = Some [(0, 50), (1, 50)], query_alignment_length = 100,
       alen = Some 50, tag_NM = Some 30, query_name = ''ins''\<rparr>,
      \<lparr>is_unmapped = False, cigartuples = Some [(4, 50), (0, 5), (2, 90), (0, 5)],
       query_alignment_length = 10, alen = Some 100, tag_NM = None, query_name = ''del''\<rparr>]
     (1, 2) (3, 5) =
     ([], None) \<and>
   passes_one_length exact_ops query_alignment_length (1, 2) (3, 5)
     \<lparr>is_unmapped = False, cigartuples = Some [(0, 50), (1, 50)], query_alignment_length = 100,
      alen = Some 50, tag_NM = Some 30, query_name = ''ins''\<rparr> \<and>
   passes_one_length exact_ops reference_length (1, 2) (3, 5)
     \<lparr>is_unmapped = False, cigartuples = Some [(4, 50), (0, 5), (2, 90), (0, 5)],
      query_alignment_length = 10, alen = Some 100, tag_NM = None, query_name = ''del''\<rparr>"
  by (simp add: get_frac_def get_pct_identity_def passes_def passes_one_length_def
      aligned_fraction_def percent_identity_def clipped_length_def reference_length_def
      exact_ops_def)

text \<open>
  Claim C9, amended. For a stream of records in which every mapped record is measurable
  (it has a CIGAR, its aligned query length plus its clipped length is not zero, and
  its aligned reference length is not zero), and for every pair of thresholds,
  \<^verbatim>\<open>get_mapped_reads\<close> yields, in order and without raising, the names of exactly the
  records that are mapped, whose aligned fraction (the aligned query length divided by
  that length plus the clipped length) is greater than \<^verbatim>\<open>min_len_frac\<close>, and whose
  percent identity (one minus the edit distance divided by the aligned reference
  length) is greater than \<^verbatim>\<open>min_pct_id\<close>.
\<close>

theorem get_mapped_reads_filter:
  assumes "\<forall>read \<in> set sam. \<not> is_unmapped read \<longrightarrow> measurable read"
  shows "get_mapped_reads fl sam min_pct_id min_len_frac =
           (map query_name (filter (passes fl min_pct_id min_len_frac) sam), None)"
  using assms
proof (induction sam)
  case Nil
  then show ?case by simp
next
  case (Cons read sam)
  then have IH: "get_mapped_reads fl sam min_pct_id min_len_frac =
           (map query_name (filter (passes fl min_pct_id min_len_frac) sam), None)"
    by simp
  show ?case
  proof (cases "is_unmapped read")
    case True
    then have "\<not> passes fl min_pct_id min_len_frac read" by (simp add: passes_def)
    with True show ?thesis by (simp add: IH)
  next
    case False
    with Cons.prems have m: "measurable read" by simp
    have p: "passes fl min_pct_id min_len_frac read \<longleftrightarrow>
          float_gt fl (aligned_fraction fl read) min_len_frac \<and>
          float_gt fl (percent_identity fl read) min_pct_id"
      using False by (simp add: passes_def)
    show ?thesis
      using False
      by (simp add: IH p get_frac_measurable[OF m] get_pct_identity_measurable[OF m])
  qed
qed

theorem get_mapped_reads_filter_witness:
  "get_mapped_reads exact_ops
     [\<lparr>is_unmapped = False, cigartuples = Some [(4, 10), (0, 90)], query_alignment_length = 90,
       alen = Some 90, tag_NM = Some 3, query_name = ''r1''\<rparr>,
      \<lparr>is_unmapped = True, cigartuples = None, query_alignment_length = 0,
       alen = None, tag_NM = None, query_name = ''r2''\<rparr>,
      \<lparr>is_unmapped = False, cigartuples = Some [(0, 50), (5, 50)], query_alignment_length = 50,
       alen = Some 50, tag_NM = None, query_name = ''r3''\<rparr>,
      \<lparr>is_unmapped = False, cigartuples = Some [(0, 100)], query_alignment_length = 100,
       alen = Some 100, tag_NM = None, query_name = ''r4''\<rparr>,
      \<lparr>is_unmapped = False, cigartuples = Some [(0, 100)], query_alignment_length = 100,
       alen = Some 100, tag_NM = Some 50, query_name = ''r5''\<rparr>]
     (1, 2) (3, 5) =
   ([''r1'', ''r4''], None)"
proof -
  let ?sam = "[\<lparr>is_unmapped = False, cigartuples = Some [(4, 10), (0, 90)], query_alignment_length = 90,
       alen = Some 90, tag_NM = Some 3, query_name = ''r1''\<rparr>,
      \<lparr>is_unmapped = True, cigartuples = None, query_alignment_length = 0,
       alen = None, tag_NM = None, query_name = ''r2''\<rparr>,
      \<lparr>is_unmapped = False, cigartuples = Some [(0, 50), (5, 50)], query_alignment_length = 50,
       alen = Some 50, tag_NM = None, query_name = ''r3''\<rparr>,
      \<lparr>is_unmapped = False, cigartuples = Some [(0, 100)], query_alignment_length = 100,
       alen = Some 100, tag_NM = None, query_name = ''r4''\<rparr>,
      \<lparr>is_unmapped = False, cigartuples = Some [(0, 100)], query_alignment_length = 100,
       alen = Some 100, tag_NM = Some 50, query_name = ''r5''\<rparr>]"
  have h: "\<forall>read \<in> set ?sam. \<not> is_unmapped read \<longrightarrow> measurable read"
    by (simp add: measurable_def clipped_length_def)
  have sel: "map query_name (filter (passes exact_ops (1, 2) (3, 5)) ?sam) = [''r1'', ''r4'']"
    by (simp add: passes_def aligned_fraction_def percent_identity_def clipped_length_def
        exact_ops_def)
  from get_mapped_reads_filter[OF h, of exact_ops "(1, 2)" "(3, 5)"] sel
  show ?thesis by simp
qed

end
